theory Spec2Isabelle
  imports Main
begin

section \<open>Strings\<close>

text \<open>
  The worker only inspects \<^verbatim>\<open>url.pathname\<close>, which the URL parser delivers as an
  ASCII string (everything else is percent-encoded), so JavaScript strings are modelled
  as \<^typ>\<open>string\<close>, one \<^typ>\<open>char\<close> per code unit.
\<close>

definition startsWith :: "string \<Rightarrow> string \<Rightarrow> bool" where
  \<comment> \<open>\<^verbatim>\<open>s.startsWith(p)\<close>\<close>
  "startsWith s p = (take (length p) s = p)"

fun replace :: "string \<Rightarrow> string \<Rightarrow> string \<Rightarrow> string" where
  \<comment> \<open>\<^verbatim>\<open>s.replace(pat, rep)\<close> with a string pattern: only the first occurrence is
      replaced (the replacement used by the worker is empty, so it has no \<^verbatim>\<open>$\<close> patterns)\<close>
  "replace [] pat rep = (if pat = [] then rep else [])"
| "replace (c # cs) pat rep =
     (if startsWith (c # cs) pat then rep @ drop (length pat) (c # cs)
      else c # replace cs pat rep)"

definition from_to :: "char \<Rightarrow> char \<Rightarrow> char \<Rightarrow> bool" where
  \<comment> \<open>a character range \<^verbatim>\<open>lo-hi\<close>, by character code\<close>
  "from_to lo hi c = ((of_char lo :: nat) \<le> of_char c \<and> (of_char c :: nat) \<le> of_char hi)"

definition to_lower :: "char \<Rightarrow> char" where
  \<comment> \<open>ASCII lower-casing, as used when header names are compared\<close>
  "to_lower c = (if from_to CHR ''A'' CHR ''Z'' c then char_of (of_char c + (32 :: nat)) else c)"

section \<open>Regular expressions\<close>

text \<open>
  The fragment of JavaScript regular expressions that the worker uses: literal
  characters, the classes \<^verbatim>\<open>[^x]\<close>, \<^verbatim>\<open>.\<close> and \<^verbatim>\<open>[a-z...]\<close>, and greedy \<^verbatim>\<open>+\<close> and
  \<^verbatim>\<open>*\<close> on a class, capturing or not.  Every pattern of the worker is anchored as
  \<^verbatim>\<open>^...$\<close> and has no flags.
\<close>

datatype cls =
    NotChar char                  \<comment> \<open>\<^verbatim>\<open>[^x]\<close>\<close>
  | AnyChar                       \<comment> \<open>\<^verbatim>\<open>.\<close>\<close>
  | Ranges "(char \<times> char) list"   \<comment> \<open>\<^verbatim>\<open>[a-zA-Z...]\<close>, a single character \<^verbatim>\<open>x\<close> being the range \<^verbatim>\<open>x-x\<close>\<close>

datatype item =
    Ch char        \<comment> \<open>a literal character\<close>
  | Plus cls       \<comment> \<open>\<^verbatim>\<open>C+\<close>\<close>
  | CapPlus cls    \<comment> \<open>\<^verbatim>\<open>(C+)\<close>\<close>
  | CapStar cls    \<comment> \<open>\<^verbatim>\<open>(C*)\<close>\<close>

definition line_terminator :: "char \<Rightarrow> bool" where
  \<comment> \<open>the line terminators that are single code units below 256: LF and CR\<close>
  "line_terminator c = (c = CHR 0x0A \<or> c = CHR 0x0D)"

fun accepts :: "cls \<Rightarrow> char \<Rightarrow> bool" where
  "accepts (NotChar x) c = (c \<noteq> x)"
| "accepts AnyChar c = (\<not> line_terminator c)"
| "accepts (Ranges rs) c = list_ex (\<lambda>(lo, hi). from_to lo hi c) rs"

fun first_down :: "(nat \<Rightarrow> 'a option) \<Rightarrow> nat \<Rightarrow> nat \<Rightarrow> 'a option" where
  \<comment> \<open>greedy choice with backtracking: the largest \<open>k\<close> between \<open>lo\<close> and the bound for
      which the continuation succeeds\<close>
  "first_down f lo 0 = (if lo = 0 then f 0 else None)"
| "first_down f lo (Suc k) =
     (if Suc k < lo then None
      else case f (Suc k) of Some r \<Rightarrow> Some r | None \<Rightarrow> first_down f lo k)"

fun rmatch :: "item list \<Rightarrow> string \<Rightarrow> string list \<Rightarrow> string list option" where
  \<comment> \<open>match the rest of the pattern against the rest of the input, up to its end (\<^verbatim>\<open>$\<close>);
      the result is the list of captured groups\<close>
  "rmatch [] s caps = (if s = [] then Some caps else None)"
| "rmatch (Ch c # r) s caps =
     (case s of [] \<Rightarrow> None | x # xs \<Rightarrow> if x = c then rmatch r xs caps else None)"
| "rmatch (Plus a # r) s caps =
     first_down (\<lambda>k. rmatch r (drop k s) caps) 1 (length (takeWhile (accepts a) s))"
| "rmatch (CapPlus a # r) s caps =
     first_down (\<lambda>k. rmatch r (drop k s) (caps @ [take k s])) 1 (length (takeWhile (accepts a) s))"
| "rmatch (CapStar a # r) s caps =
     first_down (\<lambda>k. rmatch r (drop k s) (caps @ [take k s])) 0 (length (takeWhile (accepts a) s))"

definition lit :: "string \<Rightarrow> item list" where
  "lit w = map Ch w"

definition js_match :: "string \<Rightarrow> item list \<Rightarrow> string list option" where
  \<comment> \<open>\<^verbatim>\<open>s.match(/^...$/)\<close>: \<^verbatim>\<open>null\<close>, or the array of the whole match and the groups\<close>
  "js_match s re = (case rmatch re s [] of None \<Rightarrow> None | Some caps \<Rightarrow> Some (s # caps))"

definition js_test :: "item list \<Rightarrow> string \<Rightarrow> bool" where
  \<comment> \<open>\<^verbatim>\<open>/^...$/.test(s)\<close>\<close>
  "js_test re s = (rmatch re s [] \<noteq> None)"

definition elem :: "string list \<Rightarrow> nat \<Rightarrow> string" where
  \<comment> \<open>an array element as a template literal prints it: a missing one is \<^verbatim>\<open>undefined\<close>\<close>
  "elem m i = (if i < length m then m ! i else ''undefined'')"

section \<open>Requests, responses and the network\<close>

type_synonym header = "string \<times> string"

record response =
  status :: nat
  headers :: "header list"
  body :: "string option"

text \<open>
  A request carries its URL as \<^verbatim>\<open>new URL(request.url)\<close> reads it: the path is the
  \<^verbatim>\<open>pathname\<close>, the query string the \<^verbatim>\<open>search\<close>.
\<close>

record url =
  origin :: string
  pathname :: string
  search :: string

record request =
  req_method :: string
  req_url :: url
  req_headers :: "header list"
  req_body :: "string option"

text \<open>What leaves the worker: one record per call of \<^verbatim>\<open>fetch\<close>.\<close>

record out_request =
  out_method :: string
  out_url :: string
  out_headers :: "header list"
  out_body :: "string option"

datatype error = NetworkError string

text \<open>
  The network answers the \<open>n\<close>-th outbound call of a request's handling with a response
  or with a fault.  An asynchronous function is a function from the log of the outbound
  calls made so far to its result, a value or a thrown error, and the extended log.
\<close>

type_synonym network = "nat \<Rightarrow> out_request \<Rightarrow> error + response"

type_synonym 'a async = "out_request list \<Rightarrow> (error + 'a) \<times> out_request list"

definition GET :: "string \<Rightarrow> out_request" where
  \<comment> \<open>the request that \<^verbatim>\<open>fetch(url)\<close> makes when it is given nothing but a URL string\<close>
  "GET u = \<lparr>out_method = ''GET'', out_url = u, out_headers = [], out_body = None\<rparr>"

definition fetch :: "network \<Rightarrow> string \<Rightarrow> response async" where
  "fetch net u log = (net (length log) (GET u), log @ [GET u])"

definition ok :: "response \<Rightarrow> bool" where
  \<comment> \<open>\<^verbatim>\<open>response.ok\<close>\<close>
  "ok r = (200 \<le> status r \<and> status r \<le> 299)"

subsection \<open>Header lists\<close>

definition same_name :: "string \<Rightarrow> string \<Rightarrow> bool" where
  \<comment> \<open>header names are compared without regard to ASCII case\<close>
  "same_name a b = (map to_lower a = map to_lower b)"

definition named :: "string \<Rightarrow> header \<Rightarrow> bool" where
  "named n h = same_name (fst h) n"

definition headers_has :: "header list \<Rightarrow> string \<Rightarrow> bool" where
  "headers_has hs n = list_ex (named n) hs"

fun set_first :: "header list \<Rightarrow> string \<Rightarrow> string \<Rightarrow> header list" where
  "set_first [] n v = []"
| "set_first (h # hs) n v =
     (if named n h then (fst h, v) # filter (\<lambda>h'. \<not> named n h') hs
      else h # set_first hs n v)"

definition headers_set :: "header list \<Rightarrow> string \<Rightarrow> string \<Rightarrow> header list" where
  \<comment> \<open>\<^verbatim>\<open>headers.set(n, v)\<close>: the first header of that name takes the value and the others
      of that name are removed; without one, the header is appended\<close>
  "headers_set hs n v = (if headers_has hs n then set_first hs n v else hs @ [(n, v)])"

fun join :: "string \<Rightarrow> string list \<Rightarrow> string" where
  "join sep [] = []"
| "join sep [v] = v"
| "join sep (v # w # vs) = v @ sep @ join sep (w # vs)"

definition headers_get :: "header list \<Rightarrow> string \<Rightarrow> string option" where
  \<comment> \<open>\<^verbatim>\<open>headers.get(n)\<close>: the values of that name, joined\<close>
  "headers_get hs n =
     (case filter (named n) hs of [] \<Rightarrow> None | h # hs' \<Rightarrow> Some (join '', '' (map snd (h # hs'))))"

subsection \<open>Response constructors\<close>

definition Response_text :: "string \<Rightarrow> nat \<Rightarrow> header list \<Rightarrow> response" where
  \<comment> \<open>\<^verbatim>\<open>new Response(text, {status, headers})\<close>: a string body brings its content type
      unless the headers already name one\<close>
  "Response_text txt st hs =
     \<lparr>status = st,
      headers = (if headers_has hs ''content-type'' then hs
                 else hs @ [(''content-type'', ''text/plain;charset=UTF-8'')]),
      body = Some txt\<rparr>"

definition Response_stream :: "string option \<Rightarrow> nat \<Rightarrow> header list \<Rightarrow> response" where
  \<comment> \<open>\<^verbatim>\<open>new Response(stream, {status, headers})\<close>: the body of another response, passed on
      (the status is one that \<^verbatim>\<open>fetch\<close> delivered, so the constructor accepts it)\<close>
  "Response_stream b st hs = \<lparr>status = st, headers = hs, body = b\<rparr>"

section \<open>The worker\<close>

definition PREFIX_ACCESS :: string where
  "PREFIX_ACCESS = ''/3lwqk''"

definition PREFIX_GH :: string where
  "PREFIX_GH = ''/gh/''"

abbreviation segment :: item where
  \<comment> \<open>\<^verbatim>\<open>([^\/]+)\<close>\<close>
  "segment \<equiv> CapPlus (NotChar CHR ''/'')"

definition releaseRe :: "item list" where
  \<comment> \<open>\<^verbatim>\<open>/^\/gh\/([^\/]+)\/([^\/]+)\/releases\/download\/([^\/]+)\/(.*)$/\<close>\<close>
  "releaseRe = lit ''/gh/'' @ [segment] @ lit ''/'' @ [segment] @ lit ''/releases/download/''
     @ [segment] @ lit ''/'' @ [CapStar AnyChar]"

definition versionRe :: "item list" where
  \<comment> \<open>\<^verbatim>\<open>/^\/gh\/([^\/]+)\/([^\/]+)@([^\/]+)\/(.*)$/\<close>\<close>
  "versionRe = lit ''/gh/'' @ [segment] @ lit ''/'' @ [segment] @ lit ''@''
     @ [segment] @ lit ''/'' @ [CapStar AnyChar]"

definition blobRe :: "item list" where
  \<comment> \<open>\<^verbatim>\<open>/^\/gh\/([^\/]+)\/([^\/]+)\/blob\/([^\/]+)\/(.*)$/\<close>\<close>
  "blobRe = lit ''/gh/'' @ [segment] @ lit ''/'' @ [segment] @ lit ''/blob/''
     @ [segment] @ lit ''/'' @ [CapStar AnyChar]"

definition rawRe :: "item list" where
  \<comment> \<open>\<^verbatim>\<open>/^\/gh\/([^\/]+)\/([^\/]+)\/raw\/([^\/]+)\/(.*)$/\<close>\<close>
  "rawRe = lit ''/gh/'' @ [segment] @ lit ''/'' @ [segment] @ lit ''/raw/''
     @ [segment] @ lit ''/'' @ [CapStar AnyChar]"

definition isValidGitHubParameter :: "string \<Rightarrow> bool" where
  \<comment> \<open>\<^verbatim>\<open>param && /^[a-zA-Z0-9_.-]+$/.test(param)\<close>, as a truth value\<close>
  "isValidGitHubParameter param =
     (param \<noteq> [] \<and>
      js_test [Plus (Ranges [(CHR ''a'', CHR ''z''), (CHR ''A'', CHR ''Z''), (CHR ''0'', CHR ''9''),
                 (CHR ''_'', CHR ''_''), (CHR ''.'', CHR ''.''), (CHR ''-'', CHR ''-'')])] param)"

definition generateUsageGuide :: string where
  \<open>generateUsageGuide = ''
        <!DOCTYPE html>
        <html lang="en">
        <head>
            <meta charset="UTF-8">
            <meta name="viewport" content="width=device-width, initial-scale=1.0">
            <title>Usage Guide</title>
            <style>
                body {
                    font-family: Arial, sans-serif;
                    margin: 20px;
                    padding: 20px;
                    background-color: #f4f4f4;
                    color: #333;
                }
                h1 {
                    color: #007bff;
                }
                pre {
                    background-color: #eee;
                    padding: 10px;
                    border-radius: 5px;
                }
                code {
                    font-family: monospace;
                    background-color: #f9f9f9;
                    padding: 2px 4px;
                    border-radius: 4px;
                }
            </style>
        </head>
        <body>
            <h1>Usage Guide</h1>
            <p>Use the following endpoints to access GitHub releases:</p>
            <h2>GitHub Releases</h2>
            <pre>
<code>https://dl09.net/3lwqk/gh/user/repo@version/file</code>
            </pre>
            <p>Examples:</p>
            <pre>
<code>https://dl09.net/3lwqk/gh/containerd/containerd@v1.6.4/cri-containerd-cni-1.6.4-linux-amd64.tar.gz</code>
            </pre>
            <pre>
<code>https://dl09.net/3lwqk/gh/jquery/jquery@3.6.4/dist/jquery.min.js</code>
            </pre>
            <pre>
<code>https://dl09.net/3lwqk/gh/nginx/nginx@1.2.6/CHANGELOG</code>
            </pre>
            <h2>Notes</h2>
            <ul>
                <li>Make sure to use valid user, repo, and version names.</li>
                <li>Only alphanumeric characters, dashes, and underscores are allowed.</li>
                <li>For the latest version of a repository, omit the version part.</li>
            </ul>
        </body>
        </html>
    ''\<close>

definition fetchWithCors :: "network \<Rightarrow> string \<Rightarrow> request \<Rightarrow> response async" where
  "fetchWithCors net u request log =
     (case fetch net u log of
        (Inl e, log') \<Rightarrow> (Inl e, log')
      | (Inr res, log') \<Rightarrow>
          (let resHdrNew = headers_set (headers res) ''access-control-allow-origin'' ''*''
           in (Inr (Response_stream (body res) (status res) resHdrNew), log')))"

definition releaseDownload :: "network \<Rightarrow> string \<Rightarrow> request \<Rightarrow> response async" where
  \<comment> \<open>the \<^verbatim>\<open>try\<close> block that ends \<^verbatim>\<open>handleGitHubRequest\<close>; what either call throws is caught
      (the \<^verbatim>\<open>console.log\<close> of a failed probe leaves no trace in the answer and is left out)\<close>
  "releaseDownload net githubUrl request log =
     (case fetch net githubUrl log of
        (Inl e, log') \<Rightarrow> (Inr (Response_text ''Internal Server Error'' 500 []), log')
      | (Inr res, log') \<Rightarrow>
          if \<not> ok res then (Inr (Response_text ''File not found'' 404 []), log')
          else (case fetchWithCors net githubUrl request log' of
                  (Inl e, log'') \<Rightarrow> (Inr (Response_text ''Internal Server Error'' 500 []), log'')
                | (Inr r, log'') \<Rightarrow> (Inr r, log'')))"

definition releaseUrl :: "string \<Rightarrow> string \<Rightarrow> string \<Rightarrow> string \<Rightarrow> string" where
  "releaseUrl user repo version filePath =
     ''https://github.com/'' @ user @ ''/'' @ repo @ ''/releases/download/'' @ version @ ''/'' @ filePath"

definition versionUrl :: "string \<Rightarrow> string \<Rightarrow> string \<Rightarrow> string \<Rightarrow> string" where
  "versionUrl user repo version filePath =
     ''https://github.com/'' @ user @ ''/'' @ repo @ ''/raw/refs/tags/'' @ version @ ''/'' @ filePath"

definition rawUrl :: "string \<Rightarrow> string \<Rightarrow> string \<Rightarrow> string \<Rightarrow> string" where
  "rawUrl user repo version filePath =
     ''https://raw.githubusercontent.com/'' @ user @ ''/'' @ repo @ ''/'' @ version @ ''/'' @ filePath"

text \<open>
  The branches follow the source: a short-version, blob or raw match returns from inside
  its branch; a release-download match falls through to the \<^verbatim>\<open>try\<close> block at the end.
  The last branch cannot be reached after the first test; there the four variables would
  still be \<^verbatim>\<open>undefined\<close>.
\<close>

definition handleGitHubRequest :: "network \<Rightarrow> string \<Rightarrow> request \<Rightarrow> response async" where
  "handleGitHubRequest net path request log =
     (let releaseMatch = js_match path releaseRe;
          versionMatch = js_match path versionRe;
          blobMatch = js_match path blobRe;
          rawMatch = js_match path rawRe
      in if releaseMatch = None \<and> versionMatch = None \<and> blobMatch = None \<and> rawMatch = None
         then (Inr (Response_text generateUsageGuide 400 [(''Content-Type'', ''text/html'')]), log)
         else
           (case releaseMatch of
              Some m \<Rightarrow>
                releaseDownload net (releaseUrl (elem m 1) (elem m 2) (elem m 3) (elem m 4)) request log
            | None \<Rightarrow>
               (case versionMatch of
                  Some m \<Rightarrow>
                    fetchWithCors net (versionUrl (elem m 1) (elem m 2) (elem m 3) (elem m 4)) request log
                | None \<Rightarrow>
                   (case blobMatch of
                      Some m \<Rightarrow>
                        fetchWithCors net (rawUrl (elem m 1) (elem m 2) (elem m 3) (elem m 4)) request log
                    | None \<Rightarrow>
                       (case rawMatch of
                          Some m \<Rightarrow>
                            fetchWithCors net (rawUrl (elem m 1) (elem m 2) (elem m 3) (elem m 4)) request log
                        | None \<Rightarrow>
                            releaseDownload net
                              (releaseUrl (elem [] 1) (elem [] 2) (elem [] 3) (elem [] 4)) request log)))))"

definition handleRequest :: "network \<Rightarrow> request \<Rightarrow> response async" where
  "handleRequest net request log =
     (let path = pathname (req_url request)
      in if \<not> startsWith path PREFIX_ACCESS
         then (Inr (Response_text ''404 Not Found'' 404 []), log)
         else
           (let path = replace path PREFIX_ACCESS ''''
            in if startsWith path PREFIX_GH then handleGitHubRequest net path request log
               else (Inr (Response_text ''404 Not Found'' 404 []), log)))"

section \<open>Reading a path, sample requests and networks\<close>

text \<open>
  The text after the first segment of a string, and the second segment after \<^verbatim>\<open>/gh/\<close>
  (where the patterns look for the repository).
\<close>

definition after_segment :: "string \<Rightarrow> string" where
  "after_segment s = tl (dropWhile (\<lambda>x. x \<noteq> CHR ''/'') s)"

definition repo_segment :: "string \<Rightarrow> string" where
  "repo_segment path = takeWhile (\<lambda>x. x \<noteq> CHR ''/'') (after_segment (drop 4 path))"

definition after_repo :: "string \<Rightarrow> string" where
  \<comment> \<open>what follows the repository segment and its slash\<close>
  "after_repo path = after_segment (after_segment (drop 4 path))"

definition request_for :: "string \<Rightarrow> request" where
  "request_for p = \<lparr>req_method = ''GET'',
     req_url = \<lparr>origin = ''https://dl09.net'', pathname = p, search = ''''\<rparr>,
     req_headers = [], req_body = None\<rparr>"

definition upstream_down :: network where
  "upstream_down n r = Inl (NetworkError ''connection refused'')"

definition upstream_status :: "nat \<Rightarrow> network" where
  "upstream_status st n r = Inr \<lparr>status = st,
     headers = [(''Content-Type'', ''application/gzip''), (''Access-Control-Allow-Origin'', ''https://github.com'')],
     body = Some (out_url r)\<rparr>"

section \<open>Facts about the matcher\<close>

lemma first_down_top:
  "(\<And>j. j < hi \<Longrightarrow> f j = None) \<Longrightarrow> first_down f lo hi = (if lo \<le> hi then f hi else None)"
proof (induction hi arbitrary: f)
  case 0 then show ?case by simp
next
  case (Suc k)
  have "first_down f lo k = (if lo \<le> k then f k else None)"
    using Suc.IH [of f] Suc.prems by simp
  with Suc.prems [of k] show ?case by (auto split: option.splits)
qed

lemma first_down_skip:
  "k \<le> hi \<Longrightarrow> (\<And>j. k < j \<Longrightarrow> j \<le> hi \<Longrightarrow> f j = None) \<Longrightarrow> lo \<le> k
   \<Longrightarrow> first_down f lo hi = first_down f lo k"
proof (induction hi)
  case 0 then show ?case by simp
next
  case (Suc h)
  show ?case
  proof (cases "k = Suc h")
    case True then show ?thesis by simp
  next
    case False
    with Suc.prems have "k \<le> h" by simp
    moreover have "f (Suc h) = None" using Suc.prems False by simp
    ultimately show ?thesis using Suc by simp
  qed
qed

lemma first_down_hit:
  "lo \<le> k \<Longrightarrow> f k = Some r \<Longrightarrow> first_down f lo k = Some r"
  by (cases k) auto

lemma first_down_None:
  "(\<And>j. lo \<le> j \<Longrightarrow> j \<le> hi \<Longrightarrow> f j = None) \<Longrightarrow> first_down f lo hi = None"
  by (induction hi) (auto split: option.splits)

lemma rmatch_lit:
  "rmatch (lit w @ r) s caps =
     (if take (length w) s = w then rmatch r (drop (length w) s) caps else None)"
proof (induction w arbitrary: s)
  case Nil show ?case by (simp add: lit_def)
next
  case (Cons c w)
  then show ?case by (cases s) (auto simp: lit_def)
qed

text \<open>A segment that is followed by a slash is the run up to the next slash.\<close>

lemma rmatch_segment_slash:
  "rmatch (CapPlus (NotChar c) # Ch c # r) s caps =
     (case dropWhile (\<lambda>x. x \<noteq> c) s of
        [] \<Rightarrow> None
      | _ # rest \<Rightarrow> if takeWhile (\<lambda>x. x \<noteq> c) s = [] then None
                    else rmatch r rest (caps @ [takeWhile (\<lambda>x. x \<noteq> c) s]))"
proof -
  let ?seg = "takeWhile (\<lambda>x. x \<noteq> c) s"
  let ?f = "\<lambda>k. rmatch (Ch c # r) (drop k s) (caps @ [take k s])"
  have acc: "accepts (NotChar c) = (\<lambda>x. x \<noteq> c)" by (rule ext) simp
  have low: "?f j = None" if "j < length ?seg" for j
  proof -
    from that have "j < length s" using length_takeWhile_le [of "\<lambda>x. x \<noteq> c" s] by simp
    then have d: "drop j s = s ! j # drop (Suc j) s" by (simp add: Cons_nth_drop_Suc)
    have "?seg ! j = s ! j" using that by (rule takeWhile_nth)
    moreover have "?seg ! j \<in> set ?seg" using that by simp
    ultimately have "s ! j \<noteq> c" by (metis (lifting) set_takeWhileD)
    with d show ?thesis by simp
  qed
  have "rmatch (CapPlus (NotChar c) # Ch c # r) s caps = first_down ?f 1 (length ?seg)"
    by (simp add: acc)
  also have "\<dots> = (if 1 \<le> length ?seg then ?f (length ?seg) else None)"
    using low by (rule first_down_top)
  finally have eq: "rmatch (CapPlus (NotChar c) # Ch c # r) s caps =
      (if 1 \<le> length ?seg then ?f (length ?seg) else None)" .
  have t: "take (length ?seg) s = ?seg" by (rule takeWhile_eq_take [symmetric])
  have d: "drop (length ?seg) s = dropWhile (\<lambda>x. x \<noteq> c) s" by (rule dropWhile_eq_drop [symmetric])
  have eq': "rmatch (CapPlus (NotChar c) # Ch c # r) s caps =
      (if 1 \<le> length ?seg then rmatch (Ch c # r) (dropWhile (\<lambda>x. x \<noteq> c) s) (caps @ [?seg]) else None)"
    by (simp only: eq t d)
  show ?thesis
  proof (cases "dropWhile (\<lambda>x. x \<noteq> c) s")
    case Nil
    show ?thesis unfolding eq' Nil by simp
  next
    case (Cons x rest)
    then have "x = c" using hd_dropWhile [of "\<lambda>x. x \<noteq> c" s] by simp
    show ?thesis unfolding eq' Cons \<open>x = c\<close> by (cases "?seg") simp_all
  qed
qed

lemma segment_split:
  "c \<notin> set seg \<Longrightarrow> takeWhile (\<lambda>x. x \<noteq> c) (seg @ c # rest) = seg"
  "c \<notin> set seg \<Longrightarrow> dropWhile (\<lambda>x. x \<noteq> c) (seg @ c # rest) = c # rest"
  by (induction seg) auto

lemma rmatch_segment_build:
  "c \<notin> set seg \<Longrightarrow> seg \<noteq> [] \<Longrightarrow>
   rmatch (CapPlus (NotChar c) # Ch c # r) (seg @ c # rest) caps = rmatch r rest (caps @ [seg])"
  unfolding rmatch_segment_slash by (simp add: segment_split)

lemma rmatch_rest:
  "rmatch [CapStar AnyChar] s caps = (if list_ex line_terminator s then None else Some (caps @ [s]))"
proof -
  let ?n = "length (takeWhile (accepts AnyChar) s)"
  let ?f = "\<lambda>k. rmatch [] (drop k s) (caps @ [take k s])"
  have len: "?n \<le> length s" by (rule length_takeWhile_le)
  have "?f j = None" if "j < ?n" for j using that len by simp
  then have "first_down ?f 0 ?n = (if 0 \<le> ?n then ?f ?n else None)" by (rule first_down_top)
  then have eq: "rmatch [CapStar AnyChar] s caps = ?f ?n" by simp
  show ?thesis
  proof (cases "list_ex line_terminator s")
    case True
    then have "takeWhile (accepts AnyChar) s \<noteq> s"
      by (metis (mono_tags, lifting) accepts.simps(2) list_ex_iff set_takeWhileD)
    then have "?n < length s" using len
      by (metis le_neq_implies_less takeWhile_eq_take take_all_iff order_refl)
    then have "?f ?n = None" by simp
    then show ?thesis unfolding eq using True by simp
  next
    case False
    then have "takeWhile (accepts AnyChar) s = s" by (auto simp: list_ex_iff)
    then have n: "?n = length s" by (rule arg_cong)
    have "?f (length s) = Some (caps @ [s])" by simp
    then have "?f ?n = Some (caps @ [s])" by (simp only: n)
    then show ?thesis unfolding eq using False by simp
  qed
qed

lemma accepts_NotChar: "accepts (NotChar c) = (\<lambda>x. x \<noteq> c)"
  by (rule ext) simp

lemma takeWhile_dropWhile_Nil: "takeWhile P (dropWhile P s) = []"
  by (induction s) auto

lemma rmatch_segment_at_slash:
  "rmatch (CapPlus (NotChar c) # Ch c # r) (dropWhile (\<lambda>x. x \<noteq> c) s) caps = None"
  unfolding rmatch_segment_slash takeWhile_dropWhile_Nil by (simp split: list.splits)

lemma rmatch_Ch_drop:
  "rmatch (Ch c # r) (drop j s) caps =
     (if j < length s \<and> s ! j = c then rmatch r (drop (Suc j) s) caps else None)"
proof (cases "j < length s")
  case True
  then have "drop j s = s ! j # drop (Suc j) s" by (simp add: Cons_nth_drop_Suc)
  then show ?thesis using True by simp
next
  case False
  then show ?thesis by simp
qed

lemma version_tail_None:
  assumes "CHR ''@'' \<notin> set (butlast (tl (takeWhile (\<lambda>x. x \<noteq> CHR ''/'') s)))"
  shows "rmatch (CapPlus (NotChar CHR ''/'') # Ch CHR ''@'' # CapPlus (NotChar CHR ''/'') # Ch CHR ''/'' # r)
           s caps = None"
proof -
  let ?P = "\<lambda>x. x \<noteq> CHR ''/''"
  let ?seg = "takeWhile ?P s"
  let ?T = "CapPlus (NotChar CHR ''/'') # Ch CHR ''/'' # r"
  let ?f = "\<lambda>k. rmatch (Ch CHR ''@'' # ?T) (drop k s) (caps @ [take k s])"
  have none: "?f j = None" if j: "1 \<le> j" "j \<le> length ?seg" for j
  proof (cases "j < length s \<and> s ! j = CHR ''@''")
    case False
    then show ?thesis by (simp only: rmatch_Ch_drop if_False)
  next
    case True
    have "j \<noteq> length ?seg"
    proof
      assume "j = length ?seg"
      with True have "\<not> ?P (s ! j)" using nth_length_takeWhile [of ?P s] by simp
      with True show False by simp
    qed
    with j have lt: "j < length ?seg" by simp
    then have at: "?seg ! j = CHR ''@''" using True takeWhile_nth [of j ?P s] by simp
    have "Suc j = length ?seg"
    proof (rule ccontr)
      assume "Suc j \<noteq> length ?seg"
      with lt have b: "j - 1 < length (butlast (tl ?seg))" using j by simp
      then have "butlast (tl ?seg) ! (j - 1) = tl ?seg ! (j - 1)" by (rule nth_butlast)
      also have "\<dots> = ?seg ! j" using j lt by (simp add: nth_tl)
      finally have "CHR ''@'' \<in> set (butlast (tl ?seg))" using at b by (metis nth_mem)
      with assms show False by simp
    qed
    then have "drop (Suc j) s = dropWhile ?P s" by (simp add: dropWhile_eq_drop)
    then have "rmatch ?T (drop (Suc j) s) (caps @ [take j s]) = None"
      by (simp only: rmatch_segment_at_slash)
    with True show ?thesis by (simp add: rmatch_Ch_drop del: rmatch.simps)
  qed
  have "rmatch (CapPlus (NotChar CHR ''/'') # Ch CHR ''@'' # ?T) s caps = first_down ?f 1 (length ?seg)"
    by (simp add: accepts_NotChar)
  also have "\<dots> = None" using none by (rule first_down_None)
  finally show ?thesis .
qed

lemma version_tail_build:
  assumes repo: "CHR ''/'' \<notin> set repo" "repo \<noteq> []"
    and tag: "CHR ''/'' \<notin> set tag" "tag \<noteq> []" "CHR ''@'' \<notin> set (butlast tag)"
    and rest: "\<not> list_ex line_terminator rest"
  shows "rmatch (CapPlus (NotChar CHR ''/'') # Ch CHR ''@'' # CapPlus (NotChar CHR ''/'') # Ch CHR ''/''
           # [CapStar AnyChar]) (repo @ CHR ''@'' # tag @ CHR ''/'' # rest) caps
         = Some (caps @ [repo, tag, rest])"
proof -
  let ?P = "\<lambda>x. x \<noteq> CHR ''/''"
  let ?s = "repo @ CHR ''@'' # tag @ CHR ''/'' # rest"
  let ?T = "CapPlus (NotChar CHR ''/'') # Ch CHR ''/'' # [CapStar AnyChar]"
  let ?f = "\<lambda>k. rmatch (Ch CHR ''@'' # ?T) (drop k ?s) (caps @ [take k ?s])"
  let ?n = "length repo + 1 + length tag"
  have "takeWhile ?P ((repo @ CHR ''@'' # tag) @ CHR ''/'' # rest) = repo @ CHR ''@'' # tag"
    using repo tag by (intro segment_split) simp
  then have seg: "length (takeWhile ?P ?s) = ?n" by simp
  have hit: "?f (length repo) = Some (caps @ [repo, tag, rest])"
    using tag rest by (simp add: rmatch_segment_build rmatch_rest del: rmatch.simps(4,5))
  have above: "?f j = None" if j: "length repo < j" "j \<le> ?n" for j
  proof -
    define i where "i = j - Suc (length repo)"
    have i: "i \<le> length tag" and ji: "j = Suc (length repo) + i" using j by (simp_all add: i_def)
    have d: "drop j ?s = drop i (tag @ CHR ''/'' # rest)" by (simp add: ji)
    show ?thesis
    proof (cases "i < length tag")
      case False
      with i have "i = length tag" by simp
      then show ?thesis unfolding d by simp
    next
      case True
      then have d': "drop i (tag @ CHR ''/'' # rest) = tag ! i # drop (Suc i) tag @ CHR ''/'' # rest"
        by (simp add: Cons_nth_drop_Suc [symmetric])
      show ?thesis
      proof (cases "tag ! i = CHR ''@''")
        case False
        then show ?thesis unfolding d d' by simp
      next
        case at: True
        have "Suc i = length tag"
        proof (rule ccontr)
          assume "Suc i \<noteq> length tag"
          with True have b: "i < length (butlast tag)" by simp
          then have "butlast tag ! i = tag ! i" by (rule nth_butlast)
          with at b have "CHR ''@'' \<in> set (butlast tag)" by (metis nth_mem)
          with tag show False by simp
        qed
        then have "drop (Suc i) tag = []" by simp
        then have "drop j ?s = CHR ''@'' # CHR ''/'' # rest"
          unfolding d d' using at by simp
        then show ?thesis by (simp add: rmatch_segment_slash del: rmatch.simps(4,5))
      qed
    qed
  qed
  have "rmatch (CapPlus (NotChar CHR ''/'') # Ch CHR ''@'' # ?T) ?s caps
          = first_down ?f 1 (length (takeWhile ?P ?s))"
    by (simp only: rmatch.simps accepts_NotChar)
  also have "\<dots> = first_down ?f 1 ?n" by (simp only: seg)
  also have "\<dots> = first_down ?f 1 (length repo)"
    using above repo by (intro first_down_skip) (simp_all add: Suc_le_eq)
  also have "\<dots> = Some (caps @ [repo, tag, rest])"
    using repo hit by (intro first_down_hit) (simp_all add: Suc_le_eq)
  finally show ?thesis .
qed

section \<open>The four patterns on paths of each shape\<close>


lemma releaseRe_eq:
  "releaseRe = lit ''/gh/'' @ (segment # Ch CHR ''/'' # segment # Ch CHR ''/'' #
     (lit ''releases/download/'' @ (segment # Ch CHR ''/'' # [CapStar AnyChar])))"
  by (simp add: releaseRe_def lit_def)

lemma blobRe_eq:
  "blobRe = lit ''/gh/'' @ (segment # Ch CHR ''/'' # segment # Ch CHR ''/'' #
     (lit ''blob/'' @ (segment # Ch CHR ''/'' # [CapStar AnyChar])))"
  by (simp add: blobRe_def lit_def)

lemma rawRe_eq:
  "rawRe = lit ''/gh/'' @ (segment # Ch CHR ''/'' # segment # Ch CHR ''/'' #
     (lit ''raw/'' @ (segment # Ch CHR ''/'' # [CapStar AnyChar])))"
  by (simp add: rawRe_def lit_def)

lemma versionRe_eq:
  "versionRe = lit ''/gh/'' @ (segment # Ch CHR ''/'' #
     (segment # Ch CHR ''@'' # segment # Ch CHR ''/'' # [CapStar AnyChar]))"
  by (simp add: versionRe_def lit_def)

lemma rmatch_gh_owner:
  "CHR ''/'' \<notin> set owner \<Longrightarrow> owner \<noteq> [] \<Longrightarrow>
   rmatch (lit ''/gh/'' @ (segment # Ch CHR ''/'' # R)) (''/gh/'' @ owner @ ''/'' @ X) caps
     = rmatch R X (caps @ [owner])"
  unfolding rmatch_lit by (simp add: rmatch_segment_build del: rmatch.simps)

lemma rmatch_gh_owner_repo:
  assumes "CHR ''/'' \<notin> set owner" "owner \<noteq> []" "CHR ''/'' \<notin> set repo" "repo \<noteq> []"
  shows "rmatch (lit ''/gh/'' @ (segment # Ch CHR ''/'' # segment # Ch CHR ''/'' # R))
     (''/gh/'' @ owner @ ''/'' @ repo @ ''/'' @ X) caps
     = rmatch R X (caps @ [owner, repo])"
proof -
  have "rmatch (lit ''/gh/'' @ (segment # Ch CHR ''/'' # segment # Ch CHR ''/'' # R))
     (''/gh/'' @ owner @ ''/'' @ repo @ ''/'' @ X) caps
     = rmatch (segment # Ch CHR ''/'' # R) (repo @ ''/'' @ X) (caps @ [owner])"
    using assms(1,2) by (rule rmatch_gh_owner)
  also have "\<dots> = rmatch R X (caps @ [owner, repo])"
    using rmatch_segment_build [of "CHR ''/''" repo R X "caps @ [owner]"] assms by simp
  finally show ?thesis .
qed

lemma rmatch_word_ref_file:
  "CHR ''/'' \<notin> set ref \<Longrightarrow> ref \<noteq> [] \<Longrightarrow> \<not> list_ex line_terminator file \<Longrightarrow>
   rmatch (lit w @ (segment # Ch CHR ''/'' # [CapStar AnyChar])) (w @ ref @ ''/'' @ file) caps
     = Some (caps @ [ref, file])"
  unfolding rmatch_lit by (simp add: rmatch_segment_build rmatch_rest del: rmatch.simps)

lemma rmatch_word_mismatch:
  "take (length w) X \<noteq> w \<Longrightarrow> rmatch (lit w @ R) X caps = None"
  unfolding rmatch_lit by simp

text \<open>What each pattern does on a path of each shape.\<close>

lemma release_on_release:
  assumes "CHR ''/'' \<notin> set owner" "owner \<noteq> []" "CHR ''/'' \<notin> set repo" "repo \<noteq> []"
    "CHR ''/'' \<notin> set tag" "tag \<noteq> []" "\<not> list_ex line_terminator file"
  shows "rmatch releaseRe (''/gh/'' @ owner @ ''/'' @ repo @ ''/releases/download/'' @ tag @ ''/'' @ file) []
    = Some [owner, repo, tag, file]"
proof -
  let ?R = "lit ''releases/download/'' @ (segment # Ch CHR ''/'' # [CapStar AnyChar])"
  have "rmatch releaseRe (''/gh/'' @ owner @ ''/'' @ repo @ ''/'' @ (''releases/download/'' @ tag @ ''/'' @ file)) []
    = rmatch ?R (''releases/download/'' @ tag @ ''/'' @ file) ([] @ [owner, repo])"
    unfolding releaseRe_eq using assms(1-4) by (rule rmatch_gh_owner_repo)
  also have "\<dots> = Some (([] @ [owner, repo]) @ [tag, file])"
    using assms(5-7) by (rule rmatch_word_ref_file)
  finally show ?thesis by simp
qed

lemma blob_on_blob:
  assumes "CHR ''/'' \<notin> set owner" "owner \<noteq> []" "CHR ''/'' \<notin> set repo" "repo \<noteq> []"
    "CHR ''/'' \<notin> set ref" "ref \<noteq> []" "\<not> list_ex line_terminator file"
  shows "rmatch blobRe (''/gh/'' @ owner @ ''/'' @ repo @ ''/blob/'' @ ref @ ''/'' @ file) []
    = Some [owner, repo, ref, file]"
proof -
  let ?R = "lit ''blob/'' @ (segment # Ch CHR ''/'' # [CapStar AnyChar])"
  have "rmatch blobRe (''/gh/'' @ owner @ ''/'' @ repo @ ''/'' @ (''blob/'' @ ref @ ''/'' @ file)) []
    = rmatch ?R (''blob/'' @ ref @ ''/'' @ file) ([] @ [owner, repo])"
    unfolding blobRe_eq using assms(1-4) by (rule rmatch_gh_owner_repo)
  also have "\<dots> = Some (([] @ [owner, repo]) @ [ref, file])"
    using assms(5-7) by (rule rmatch_word_ref_file)
  finally show ?thesis by simp
qed

lemma raw_on_raw:
  assumes "CHR ''/'' \<notin> set owner" "owner \<noteq> []" "CHR ''/'' \<notin> set repo" "repo \<noteq> []"
    "CHR ''/'' \<notin> set ref" "ref \<noteq> []" "\<not> list_ex line_terminator file"
  shows "rmatch rawRe (''/gh/'' @ owner @ ''/'' @ repo @ ''/raw/'' @ ref @ ''/'' @ file) []
    = Some [owner, repo, ref, file]"
proof -
  let ?R = "lit ''raw/'' @ (segment # Ch CHR ''/'' # [CapStar AnyChar])"
  have "rmatch rawRe (''/gh/'' @ owner @ ''/'' @ repo @ ''/'' @ (''raw/'' @ ref @ ''/'' @ file)) []
    = rmatch ?R (''raw/'' @ ref @ ''/'' @ file) ([] @ [owner, repo])"
    unfolding rawRe_eq using assms(1-4) by (rule rmatch_gh_owner_repo)
  also have "\<dots> = Some (([] @ [owner, repo]) @ [ref, file])"
    using assms(5-7) by (rule rmatch_word_ref_file)
  finally show ?thesis by simp
qed

lemma version_on_version:
  assumes "CHR ''/'' \<notin> set owner" "owner \<noteq> []" "CHR ''/'' \<notin> set repo" "repo \<noteq> []"
    "CHR ''/'' \<notin> set tag" "tag \<noteq> []" "CHR ''@'' \<notin> set (butlast tag)"
    "\<not> list_ex line_terminator file"
  shows "rmatch versionRe (''/gh/'' @ owner @ ''/'' @ repo @ ''@'' @ tag @ ''/'' @ file) []
    = Some [owner, repo, tag, file]"
proof -
  let ?T = "segment # Ch CHR ''@'' # segment # Ch CHR ''/'' # [CapStar AnyChar]"
  have "rmatch versionRe (''/gh/'' @ owner @ ''/'' @ (repo @ CHR ''@'' # tag @ CHR ''/'' # file)) []
    = rmatch ?T (repo @ CHR ''@'' # tag @ CHR ''/'' # file) ([] @ [owner])"
    unfolding versionRe_eq using assms(1,2) by (rule rmatch_gh_owner)
  also have "\<dots> = Some (([] @ [owner]) @ [repo, tag, file])"
    using assms(3-8) by (rule version_tail_build)
  finally show ?thesis by simp
qed

lemma word_mismatch:
  assumes "take 2 X \<noteq> take 2 w" "2 \<le> length w"
  shows "take (length w) X \<noteq> w"
proof
  assume "take (length w) X = w"
  then have "take 2 (take (length w) X) = take 2 w" by (rule arg_cong)
  with assms show False by (simp add: min_def)
qed

lemma release_on_other:
  assumes "CHR ''/'' \<notin> set owner" "owner \<noteq> []" "CHR ''/'' \<notin> set repo" "repo \<noteq> []"
    and "take 2 X \<noteq> ''re''"
  shows "rmatch releaseRe (''/gh/'' @ owner @ ''/'' @ repo @ ''/'' @ X) [] = None"
proof -
  let ?R = "lit ''releases/download/'' @ (segment # Ch CHR ''/'' # [CapStar AnyChar])"
  have "rmatch releaseRe (''/gh/'' @ owner @ ''/'' @ repo @ ''/'' @ X) []
    = rmatch ?R X ([] @ [owner, repo])"
    unfolding releaseRe_eq using assms(1-4) by (rule rmatch_gh_owner_repo)
  also have "\<dots> = None"
    using assms(5) by (intro rmatch_word_mismatch word_mismatch) simp_all
  finally show ?thesis .
qed

lemma blob_on_other:
  assumes "CHR ''/'' \<notin> set owner" "owner \<noteq> []" "CHR ''/'' \<notin> set repo" "repo \<noteq> []"
    and "take 2 X \<noteq> ''bl''"
  shows "rmatch blobRe (''/gh/'' @ owner @ ''/'' @ repo @ ''/'' @ X) [] = None"
proof -
  let ?R = "lit ''blob/'' @ (segment # Ch CHR ''/'' # [CapStar AnyChar])"
  have "rmatch blobRe (''/gh/'' @ owner @ ''/'' @ repo @ ''/'' @ X) []
    = rmatch ?R X ([] @ [owner, repo])"
    unfolding blobRe_eq using assms(1-4) by (rule rmatch_gh_owner_repo)
  also have "\<dots> = None"
    using assms(5) by (intro rmatch_word_mismatch word_mismatch) simp_all
  finally show ?thesis .
qed

lemma version_on_other:
  assumes "CHR ''/'' \<notin> set owner" "owner \<noteq> []" "CHR ''/'' \<notin> set repo"
    and "CHR ''@'' \<notin> set (butlast (tl repo))"
  shows "rmatch versionRe (''/gh/'' @ owner @ ''/'' @ repo @ ''/'' @ X) [] = None"
proof -
  let ?T = "segment # Ch CHR ''@'' # segment # Ch CHR ''/'' # [CapStar AnyChar]"
  have seg: "takeWhile (\<lambda>x. x \<noteq> CHR ''/'') (repo @ CHR ''/'' # X) = repo"
    using assms(3) by (rule segment_split)
  have "rmatch versionRe (''/gh/'' @ owner @ ''/'' @ (repo @ CHR ''/'' # X)) []
    = rmatch ?T (repo @ CHR ''/'' # X) ([] @ [owner])"
    unfolding versionRe_eq using assms(1,2) by (rule rmatch_gh_owner)
  also have "\<dots> = None"
    using assms(4) by (intro version_tail_None) (simp add: seg)
  finally show ?thesis by simp
qed

section \<open>The access gate\<close>

lemma replace_prefix: "startsWith s p \<Longrightarrow> replace s p rep = rep @ drop (length p) s"
  by (cases s) (auto simp: startsWith_def)

lemma startsWith_two:
  "startsWith s (p @ q) = (startsWith s p \<and> startsWith (drop (length p) s) q)"
proof (induction p arbitrary: s)
  case Nil
  show ?case by (simp add: startsWith_def)
next
  case (Cons c p)
  show ?case
  proof (cases s)
    case Nil
    then show ?thesis by (simp add: startsWith_def)
  next
    case (Cons x xs)
    then show ?thesis using Cons.IH [of xs] by (simp add: startsWith_def)
  qed
qed

lemma Response_text_plain:
  "Response_text txt st [] =
     \<lparr>status = st, headers = [(''content-type'', ''text/plain;charset=UTF-8'')], body = Some txt\<rparr>"
  by (simp add: Response_text_def headers_has_def)

lemma handleRequest_gate:
  "handleRequest net request log =
     (if startsWith (pathname (req_url request)) (PREFIX_ACCESS @ PREFIX_GH)
      then handleGitHubRequest net (drop (length PREFIX_ACCESS) (pathname (req_url request))) request log
      else (Inr (Response_text ''404 Not Found'' 404 []), log))"
  by (simp add: handleRequest_def Let_def startsWith_two replace_prefix)

section \<open>The handler on each branch\<close>

lemma handle_release:
  "rmatch releaseRe path [] = Some [user, repo, version, filePath] \<Longrightarrow>
   handleGitHubRequest net path request log
     = releaseDownload net (releaseUrl user repo version filePath) request log"
  by (simp add: handleGitHubRequest_def js_match_def elem_def)

lemma handle_version:
  "rmatch releaseRe path [] = None \<Longrightarrow>
   rmatch versionRe path [] = Some [user, repo, version, filePath] \<Longrightarrow>
   handleGitHubRequest net path request log
     = fetchWithCors net (versionUrl user repo version filePath) request log"
  by (simp add: handleGitHubRequest_def js_match_def elem_def)

lemma handle_blob:
  "rmatch releaseRe path [] = None \<Longrightarrow> rmatch versionRe path [] = None \<Longrightarrow>
   rmatch blobRe path [] = Some [user, repo, version, filePath] \<Longrightarrow>
   handleGitHubRequest net path request log
     = fetchWithCors net (rawUrl user repo version filePath) request log"
  by (simp add: handleGitHubRequest_def js_match_def elem_def)

lemma handle_raw:
  "rmatch releaseRe path [] = None \<Longrightarrow> rmatch versionRe path [] = None \<Longrightarrow>
   rmatch blobRe path [] = None \<Longrightarrow>
   rmatch rawRe path [] = Some [user, repo, version, filePath] \<Longrightarrow>
   handleGitHubRequest net path request log
     = fetchWithCors net (rawUrl user repo version filePath) request log"
  by (simp add: handleGitHubRequest_def js_match_def elem_def)

lemma fetchWithCors_eq:
  "fetchWithCors net u request log =
     (case net (length log) (GET u) of
        Inl e \<Rightarrow> (Inl e, log @ [GET u])
      | Inr res \<Rightarrow>
          (Inr \<lparr>status = status res,
                headers = headers_set (headers res) ''access-control-allow-origin'' ''*'',
                body = body res\<rparr>, log @ [GET u]))"
  by (simp add: fetchWithCors_def fetch_def Response_stream_def split: sum.splits)

lemma releaseDownload_eq:
  "releaseDownload net u request log =
     (case net (length log) (GET u) of
        Inl e \<Rightarrow> (Inr (Response_text ''Internal Server Error'' 500 []), log @ [GET u])
      | Inr probe \<Rightarrow>
          if \<not> ok probe then (Inr (Response_text ''File not found'' 404 []), log @ [GET u])
          else (case net (Suc (length log)) (GET u) of
                  Inl e \<Rightarrow> (Inr (Response_text ''Internal Server Error'' 500 []), log @ [GET u, GET u])
                | Inr res \<Rightarrow>
                    (Inr \<lparr>status = status res,
                          headers = headers_set (headers res) ''access-control-allow-origin'' ''*'',
                          body = body res\<rparr>, log @ [GET u, GET u])))"
  by (simp add: releaseDownload_def fetchWithCors_eq fetch_def split: sum.splits)

lemma fetchWithCors_log: "snd (fetchWithCors net u request log) = log @ [GET u]"
  by (simp add: fetchWithCors_eq split: sum.splits)

lemma fetchWithCors_response:
  "net (length log) (GET u) = Inr res \<Longrightarrow>
   fst (fetchWithCors net u request log) =
     Inr \<lparr>status = status res,
          headers = headers_set (headers res) ''access-control-allow-origin'' ''*'',
          body = body res\<rparr>"
  by (simp add: fetchWithCors_eq)


lemma js_match_None: "(js_match s re = None) = (rmatch re s [] = None)"
  by (simp add: js_match_def split: option.splits)


section \<open>Release downloads\<close>

text \<open>
  C3.  A path \<^verbatim>\<open>/gh/<owner>/<repo>/releases/download/<tag>/<file...>\<close> is fetched at
  \<^verbatim>\<open>https://github.com/<owner>/<repo>/releases/download/<tag>/<file>\<close>.  The first call is
  a probe: when its status is outside 200..299 the answer is a 404 \<^verbatim>\<open>File not found\<close> and
  there is no second call; when the probe succeeds the same URL is fetched a second time
  and that response is relayed with \<^verbatim>\<open>access-control-allow-origin\<close> set.  Owner, repository
  and tag are non-empty and without a slash; the file part is any text of a URL path (no
  line terminator).
\<close>

theorem release_download_probe_then_relay:
  assumes "owner \<noteq> []" "CHR ''/'' \<notin> set owner" "repo \<noteq> []" "CHR ''/'' \<notin> set repo"
    and "tag \<noteq> []" "CHR ''/'' \<notin> set tag" "\<not> list_ex line_terminator file"
  shows "handleGitHubRequest net
           (''/gh/'' @ owner @ ''/'' @ repo @ ''/releases/download/'' @ tag @ ''/'' @ file) request log =
     (let u = ''https://github.com/'' @ owner @ ''/'' @ repo @ ''/releases/download/'' @ tag @ ''/'' @ file
      in case net (length log) (GET u) of
           Inl e \<Rightarrow>
             (Inr \<lparr>status = 500, headers = [(''content-type'', ''text/plain;charset=UTF-8'')],
                   body = Some ''Internal Server Error''\<rparr>, log @ [GET u])
         | Inr probe \<Rightarrow>
             if \<not> (200 \<le> status probe \<and> status probe \<le> 299)
             then (Inr \<lparr>status = 404, headers = [(''content-type'', ''text/plain;charset=UTF-8'')],
                        body = Some ''File not found''\<rparr>, log @ [GET u])
             else (case net (Suc (length log)) (GET u) of
                     Inl e \<Rightarrow>
                       (Inr \<lparr>status = 500, headers = [(''content-type'', ''text/plain;charset=UTF-8'')],
                             body = Some ''Internal Server Error''\<rparr>, log @ [GET u, GET u])
                   | Inr res \<Rightarrow>
                       (Inr \<lparr>status = status res,
                             headers = headers_set (headers res) ''access-control-allow-origin'' ''*'',
                             body = body res\<rparr>, log @ [GET u, GET u])))"
proof -
  have "rmatch releaseRe (''/gh/'' @ owner @ ''/'' @ repo @ ''/releases/download/'' @ tag @ ''/'' @ file) []
      = Some [owner, repo, tag, file]"
    using assms by (intro release_on_release)
  then have h: "handleGitHubRequest net
      (''/gh/'' @ owner @ ''/'' @ repo @ ''/releases/download/'' @ tag @ ''/'' @ file) request log
      = releaseDownload net (releaseUrl owner repo tag file) request log"
    by (rule handle_release)
  show ?thesis
    unfolding h releaseDownload_eq
    by (simp add: releaseUrl_def Response_text_plain ok_def Let_def split: sum.splits)
qed

theorem release_download_probe_then_relay_witness:
  "handleGitHubRequest (upstream_status 404) ''/gh/torvalds/linux/releases/download/v6.1/patch.gz''
       (request_for ''/3lwqk/gh/torvalds/linux/releases/download/v6.1/patch.gz'') []
     = (Inr \<lparr>status = 404, headers = [(''content-type'', ''text/plain;charset=UTF-8'')],
             body = Some ''File not found''\<rparr>,
        [GET ''https://github.com/torvalds/linux/releases/download/v6.1/patch.gz''])
   \<and> handleGitHubRequest (upstream_status 200) ''/gh/torvalds/linux/releases/download/v6.1/patch.gz''
       (request_for ''/3lwqk/gh/torvalds/linux/releases/download/v6.1/patch.gz'') []
     = (Inr \<lparr>status = 200,
             headers = [(''Content-Type'', ''application/gzip''), (''Access-Control-Allow-Origin'', ''*'')],
             body = Some ''https://github.com/torvalds/linux/releases/download/v6.1/patch.gz''\<rparr>,
        [GET ''https://github.com/torvalds/linux/releases/download/v6.1/patch.gz'',
         GET ''https://github.com/torvalds/linux/releases/download/v6.1/patch.gz''])"
proof -
  have acao: "headers_set [(''Content-Type'', ''application/gzip''),
        (''Access-Control-Allow-Origin'', ''https://github.com'')] ''access-control-allow-origin'' ''*''
      = [(''Content-Type'', ''application/gzip''), (''Access-Control-Allow-Origin'', ''*'')]"
    by code_simp
  show ?thesis
    using release_download_probe_then_relay [of "''torvalds''" "''linux''" "''v6.1''" "''patch.gz''"
        "upstream_status 404" "request_for ''/3lwqk/gh/torvalds/linux/releases/download/v6.1/patch.gz''" "[]"]
      release_download_probe_then_relay [of "''torvalds''" "''linux''" "''v6.1''" "''patch.gz''"
        "upstream_status 200" "request_for ''/3lwqk/gh/torvalds/linux/releases/download/v6.1/patch.gz''" "[]"]
    by (simp add: upstream_status_def line_terminator_def GET_def acao Let_def)
qed



section \<open>Short versions\<close>

text \<open>
  C4 (amended).  A path \<^verbatim>\<open>/gh/<owner>/<repo>@<tag>/<file...>\<close> that does not also match the
  release-download pattern, and whose tag has no \<^verbatim>\<open>@\<close> before its last character, is
  fetched at \<^verbatim>\<open>https://github.com/<owner>/<repo>/raw/refs/tags/<tag>/<file>\<close> in a single call,
  without a probe, and the response is relayed.
\<close>

theorem short_version_forwarded_directly:
  assumes "owner \<noteq> []" "CHR ''/'' \<notin> set owner" "repo \<noteq> []" "CHR ''/'' \<notin> set repo"
    and "tag \<noteq> []" "CHR ''/'' \<notin> set tag" "CHR ''@'' \<notin> set (butlast tag)"
    and "\<not> list_ex line_terminator file"
    and "js_match (''/gh/'' @ owner @ ''/'' @ repo @ ''@'' @ tag @ ''/'' @ file) releaseRe = None"
  shows "snd (handleGitHubRequest net (''/gh/'' @ owner @ ''/'' @ repo @ ''@'' @ tag @ ''/'' @ file) request log)
           = log @ [GET (''https://github.com/'' @ owner @ ''/'' @ repo @ ''/raw/refs/tags/'' @ tag @ ''/'' @ file)]
    \<and> (\<forall>res. net (length log)
               (GET (''https://github.com/'' @ owner @ ''/'' @ repo @ ''/raw/refs/tags/'' @ tag @ ''/'' @ file))
             = Inr res \<longrightarrow>
          fst (handleGitHubRequest net (''/gh/'' @ owner @ ''/'' @ repo @ ''@'' @ tag @ ''/'' @ file) request log)
            = Inr \<lparr>status = status res,
                   headers = headers_set (headers res) ''access-control-allow-origin'' ''*'',
                   body = body res\<rparr>)"
proof -
  let ?path = "''/gh/'' @ owner @ ''/'' @ repo @ ''@'' @ tag @ ''/'' @ file"
  have r: "rmatch releaseRe ?path [] = None"
    using assms(9) by (simp add: js_match_def split: option.splits)
  have v: "rmatch versionRe ?path [] = Some [owner, repo, tag, file]"
    using assms(1-8) by (intro version_on_version)
  have h: "handleGitHubRequest net ?path request log
      = fetchWithCors net (versionUrl owner repo tag file) request log"
    using r v by (rule handle_version)
  have u: "versionUrl owner repo tag file
      = ''https://github.com/'' @ owner @ ''/'' @ repo @ ''/raw/refs/tags/'' @ tag @ ''/'' @ file"
    by (simp add: versionUrl_def)
  show ?thesis
    unfolding h u using fetchWithCors_response [of net log] by (simp add: fetchWithCors_log)
qed


theorem short_version_forwarded_directly_witness:
  "js_match ''/gh/jquery/jquery@3.6.4/dist/jquery.min.js'' releaseRe = None
   \<and> snd (handleGitHubRequest (upstream_status 200) ''/gh/jquery/jquery@3.6.4/dist/jquery.min.js''
         (request_for ''/3lwqk/gh/jquery/jquery@3.6.4/dist/jquery.min.js'') [])
       = [GET ''https://github.com/jquery/jquery/raw/refs/tags/3.6.4/dist/jquery.min.js'']
   \<and> fst (handleGitHubRequest (upstream_status 200) ''/gh/jquery/jquery@3.6.4/dist/jquery.min.js''
         (request_for ''/3lwqk/gh/jquery/jquery@3.6.4/dist/jquery.min.js'') [])
       = Inr \<lparr>status = 200,
              headers = [(''Content-Type'', ''application/gzip''), (''Access-Control-Allow-Origin'', ''*'')],
              body = Some ''https://github.com/jquery/jquery/raw/refs/tags/3.6.4/dist/jquery.min.js''\<rparr>"
proof -
  have acao: "headers_set [(''Content-Type'', ''application/gzip''),
        (''Access-Control-Allow-Origin'', ''https://github.com'')] ''access-control-allow-origin'' ''*''
      = [(''Content-Type'', ''application/gzip''), (''Access-Control-Allow-Origin'', ''*'')]"
    by code_simp
  have rel: "js_match ''/gh/jquery/jquery@3.6.4/dist/jquery.min.js'' releaseRe = None"
    by (simp add: js_match_def releaseRe_def lit_def)
  show ?thesis
    using short_version_forwarded_directly [of "''jquery''" "''jquery''" "''3.6.4''" "''dist/jquery.min.js''"
        "upstream_status 200" "request_for ''/3lwqk/gh/jquery/jquery@3.6.4/dist/jquery.min.js''" "[]"] rel
    by (simp add: upstream_status_def line_terminator_def GET_def acao)
qed

text \<open>
  The claim without the first proviso fails: a short-version path whose file part begins
  with \<^verbatim>\<open>releases/download/<tag>/\<close> also matches the release-download pattern, which is
  tried first and takes the whole second segment for the repository.
\<close>

theorem short_version_shape_counterexample:
  "snd (handleGitHubRequest (upstream_status 200) ''/gh/o/r@t/releases/download/x/f''
         (request_for ''/3lwqk/gh/o/r@t/releases/download/x/f'') [])
     = [GET ''https://github.com/o/r@t/releases/download/x/f'',
        GET ''https://github.com/o/r@t/releases/download/x/f'']
   \<and> snd (handleGitHubRequest (upstream_status 200) ''/gh/o/r@t/releases/download/x/f''
         (request_for ''/3lwqk/gh/o/r@t/releases/download/x/f'') [])
     \<noteq> [GET ''https://github.com/o/r/raw/refs/tags/t/releases/download/x/f'']"
  by code_simp


section \<open>Blob and raw paths\<close>

text \<open>
  C6 (amended).  When the repository segment has no \<^verbatim>\<open>@\<close> strictly inside it (so that the
  short-version pattern does not match), the blob path and the raw path of the same
  owner, repository, ref and file are handled identically: one call, without a probe, to
  \<^verbatim>\<open>https://raw.githubusercontent.com/<owner>/<repo>/<ref>/<file>\<close>, whose response is relayed.
\<close>

theorem blob_and_raw_share_target:
  assumes "owner \<noteq> []" "CHR ''/'' \<notin> set owner" "repo \<noteq> []" "CHR ''/'' \<notin> set repo"
    and "ref \<noteq> []" "CHR ''/'' \<notin> set ref" "\<not> list_ex line_terminator file"
    and "CHR ''@'' \<notin> set (butlast (tl repo))"
  shows "handleGitHubRequest net (''/gh/'' @ owner @ ''/'' @ repo @ ''/blob/'' @ ref @ ''/'' @ file) request log
           = handleGitHubRequest net (''/gh/'' @ owner @ ''/'' @ repo @ ''/raw/'' @ ref @ ''/'' @ file) request log
    \<and> snd (handleGitHubRequest net (''/gh/'' @ owner @ ''/'' @ repo @ ''/blob/'' @ ref @ ''/'' @ file) request log)
           = log @ [GET (''https://raw.githubusercontent.com/'' @ owner @ ''/'' @ repo @ ''/'' @ ref @ ''/'' @ file)]
    \<and> (\<forall>res. net (length log)
               (GET (''https://raw.githubusercontent.com/'' @ owner @ ''/'' @ repo @ ''/'' @ ref @ ''/'' @ file))
             = Inr res \<longrightarrow>
          fst (handleGitHubRequest net (''/gh/'' @ owner @ ''/'' @ repo @ ''/blob/'' @ ref @ ''/'' @ file) request log)
            = Inr \<lparr>status = status res,
                   headers = headers_set (headers res) ''access-control-allow-origin'' ''*'',
                   body = body res\<rparr>)"
proof -
  let ?blob = "''/gh/'' @ owner @ ''/'' @ repo @ ''/blob/'' @ ref @ ''/'' @ file"
  let ?raw = "''/gh/'' @ owner @ ''/'' @ repo @ ''/raw/'' @ ref @ ''/'' @ file"
  have rb: "rmatch releaseRe (''/gh/'' @ owner @ ''/'' @ repo @ ''/'' @ (''blob/'' @ ref @ ''/'' @ file)) [] = None"
    using assms(2,1,4,3) by (rule release_on_other) simp
  have rr: "rmatch releaseRe (''/gh/'' @ owner @ ''/'' @ repo @ ''/'' @ (''raw/'' @ ref @ ''/'' @ file)) [] = None"
    using assms(2,1,4,3) by (rule release_on_other) simp
  have br: "rmatch blobRe (''/gh/'' @ owner @ ''/'' @ repo @ ''/'' @ (''raw/'' @ ref @ ''/'' @ file)) [] = None"
    using assms(2,1,4,3) by (rule blob_on_other) simp
  have vb: "rmatch versionRe (''/gh/'' @ owner @ ''/'' @ repo @ ''/'' @ (''blob/'' @ ref @ ''/'' @ file)) [] = None"
    using assms(2,1,4,8) by (rule version_on_other)
  have vr: "rmatch versionRe (''/gh/'' @ owner @ ''/'' @ repo @ ''/'' @ (''raw/'' @ ref @ ''/'' @ file)) [] = None"
    using assms(2,1,4,8) by (rule version_on_other)
  have bb: "rmatch blobRe ?blob [] = Some [owner, repo, ref, file]"
    using assms(2,1,4,3,6,5,7) by (rule blob_on_blob)
  have ww: "rmatch rawRe ?raw [] = Some [owner, repo, ref, file]"
    using assms(2,1,4,3,6,5,7) by (rule raw_on_raw)
  have hb: "handleGitHubRequest net ?blob request log
      = fetchWithCors net (rawUrl owner repo ref file) request log"
    using rb vb bb by (intro handle_blob) simp_all
  have hr: "handleGitHubRequest net ?raw request log
      = fetchWithCors net (rawUrl owner repo ref file) request log"
    using rr vr br ww by (intro handle_raw) simp_all
  have u: "rawUrl owner repo ref file
      = ''https://raw.githubusercontent.com/'' @ owner @ ''/'' @ repo @ ''/'' @ ref @ ''/'' @ file"
    by (simp add: rawUrl_def)
  show ?thesis
    unfolding hb hr u using fetchWithCors_response [of net log] by (simp add: fetchWithCors_log)
qed

theorem blob_and_raw_share_target_witness:
  "handleGitHubRequest (upstream_status 200) ''/gh/nginx/nginx/blob/master/CHANGELOG''
       (request_for ''/3lwqk/gh/nginx/nginx/blob/master/CHANGELOG'') []
     = handleGitHubRequest (upstream_status 200) ''/gh/nginx/nginx/raw/master/CHANGELOG''
       (request_for ''/3lwqk/gh/nginx/nginx/blob/master/CHANGELOG'') []
   \<and> snd (handleGitHubRequest (upstream_status 200) ''/gh/nginx/nginx/blob/master/CHANGELOG''
         (request_for ''/3lwqk/gh/nginx/nginx/blob/master/CHANGELOG'') [])
       = [GET ''https://raw.githubusercontent.com/nginx/nginx/master/CHANGELOG'']
   \<and> fst (handleGitHubRequest (upstream_status 200) ''/gh/nginx/nginx/blob/master/CHANGELOG''
         (request_for ''/3lwqk/gh/nginx/nginx/blob/master/CHANGELOG'') [])
       = Inr \<lparr>status = 200,
              headers = [(''Content-Type'', ''application/gzip''), (''Access-Control-Allow-Origin'', ''*'')],
              body = Some ''https://raw.githubusercontent.com/nginx/nginx/master/CHANGELOG''\<rparr>"
proof -
  have acao: "headers_set [(''Content-Type'', ''application/gzip''),
        (''Access-Control-Allow-Origin'', ''https://github.com'')] ''access-control-allow-origin'' ''*''
      = [(''Content-Type'', ''application/gzip''), (''Access-Control-Allow-Origin'', ''*'')]"
    by code_simp
  show ?thesis
    using blob_and_raw_share_target [of "''nginx''" "''nginx''" "''master''" "''CHANGELOG''"
        "upstream_status 200" "request_for ''/3lwqk/gh/nginx/nginx/blob/master/CHANGELOG''" "[]"]
    by (auto simp: upstream_status_def line_terminator_def GET_def acao)
qed

text \<open>
  With an \<^verbatim>\<open>@\<close> inside the repository segment the short-version pattern matches too and
  is tried before the blob and raw patterns: the two paths then go to different URLs on
  \<^verbatim>\<open>github.com\<close>.
\<close>

theorem blob_and_raw_share_target_counterexample:
  "snd (handleGitHubRequest (upstream_status 200) ''/gh/o/r@t/blob/x/f''
         (request_for ''/3lwqk/gh/o/r@t/blob/x/f'') [])
     = [GET ''https://github.com/o/r/raw/refs/tags/t/blob/x/f'']
   \<and> snd (handleGitHubRequest (upstream_status 200) ''/gh/o/r@t/raw/x/f''
         (request_for ''/3lwqk/gh/o/r@t/raw/x/f'') [])
     = [GET ''https://github.com/o/r/raw/refs/tags/t/raw/x/f'']
   \<and> GET ''https://github.com/o/r/raw/refs/tags/t/blob/x/f''
       \<noteq> GET ''https://raw.githubusercontent.com/o/r@t/x/f''
   \<and> GET ''https://github.com/o/r/raw/refs/tags/t/blob/x/f''
       \<noteq> GET ''https://github.com/o/r/raw/refs/tags/t/raw/x/f''"
  by code_simp

section \<open>The two gates\<close>

text \<open>
  C8.  A request whose path does not start with the access prefix is answered 404
  \<^verbatim>\<open>404 Not Found\<close>, and so is one whose path starts with it but whose remainder, once the
  prefix is stripped, does not start with \<^verbatim>\<open>/gh/\<close>.  Put together: a request reaches the
  shape classification exactly when its path starts with the access prefix followed by
  \<^verbatim>\<open>/gh/\<close>, as plain text, and the classification then sees the path without the access
  prefix.
\<close>

theorem gate_is_a_prefix_test:
  "(\<not> startsWith (pathname (req_url request)) PREFIX_ACCESS \<longrightarrow>
      handleRequest net request log =
        (Inr \<lparr>status = 404, headers = [(''content-type'', ''text/plain;charset=UTF-8'')],
              body = Some ''404 Not Found''\<rparr>, log))
   \<and> (startsWith (pathname (req_url request)) PREFIX_ACCESS
        \<and> \<not> startsWith (replace (pathname (req_url request)) PREFIX_ACCESS '''') PREFIX_GH \<longrightarrow>
      handleRequest net request log =
        (Inr \<lparr>status = 404, headers = [(''content-type'', ''text/plain;charset=UTF-8'')],
              body = Some ''404 Not Found''\<rparr>, log))
   \<and> handleRequest net request log =
       (if startsWith (pathname (req_url request)) (PREFIX_ACCESS @ PREFIX_GH)
        then handleGitHubRequest net (drop (length PREFIX_ACCESS) (pathname (req_url request))) request log
        else (Inr \<lparr>status = 404, headers = [(''content-type'', ''text/plain;charset=UTF-8'')],
                   body = Some ''404 Not Found''\<rparr>, log))"
proof (intro conjI impI)
  assume "\<not> startsWith (pathname (req_url request)) PREFIX_ACCESS"
  then show "handleRequest net request log =
        (Inr \<lparr>status = 404, headers = [(''content-type'', ''text/plain;charset=UTF-8'')],
              body = Some ''404 Not Found''\<rparr>, log)"
    by (simp add: handleRequest_def Response_text_plain)
next
  assume "startsWith (pathname (req_url request)) PREFIX_ACCESS
        \<and> \<not> startsWith (replace (pathname (req_url request)) PREFIX_ACCESS '''') PREFIX_GH"
  then show "handleRequest net request log =
        (Inr \<lparr>status = 404, headers = [(''content-type'', ''text/plain;charset=UTF-8'')],
              body = Some ''404 Not Found''\<rparr>, log)"
    by (simp add: handleRequest_def Response_text_plain Let_def)
next
  show "handleRequest net request log =
       (if startsWith (pathname (req_url request)) (PREFIX_ACCESS @ PREFIX_GH)
        then handleGitHubRequest net (drop (length PREFIX_ACCESS) (pathname (req_url request))) request log
        else (Inr \<lparr>status = 404, headers = [(''content-type'', ''text/plain;charset=UTF-8'')],
                   body = Some ''404 Not Found''\<rparr>, log))"
    unfolding handleRequest_gate by (simp add: Response_text_plain)
qed

theorem gate_is_a_prefix_test_witness:
  "handleRequest (upstream_status 200) (request_for ''/gh/nginx/nginx/raw/master/CHANGELOG'') []
     = (Inr \<lparr>status = 404, headers = [(''content-type'', ''text/plain;charset=UTF-8'')],
             body = Some ''404 Not Found''\<rparr>, [])
   \<and> handleRequest (upstream_status 200) (request_for ''/3lwqk/npm/nginx'') []
     = (Inr \<lparr>status = 404, headers = [(''content-type'', ''text/plain;charset=UTF-8'')],
             body = Some ''404 Not Found''\<rparr>, [])
   \<and> handleRequest (upstream_status 200) (request_for ''/3lwqk-old/gh/nginx/nginx/raw/master/CHANGELOG'') []
     = (Inr \<lparr>status = 404, headers = [(''content-type'', ''text/plain;charset=UTF-8'')],
             body = Some ''404 Not Found''\<rparr>, [])
   \<and> handleRequest (upstream_status 200) (request_for ''/3lwqk/gh/nginx/nginx/raw/master/CHANGELOG'') []
     = handleGitHubRequest (upstream_status 200) ''/gh/nginx/nginx/raw/master/CHANGELOG''
         (request_for ''/3lwqk/gh/nginx/nginx/raw/master/CHANGELOG'') []"
  using gate_is_a_prefix_test [of "request_for ''/gh/nginx/nginx/raw/master/CHANGELOG''" "upstream_status 200" "[]"]
    gate_is_a_prefix_test [of "request_for ''/3lwqk/npm/nginx''" "upstream_status 200" "[]"]
    gate_is_a_prefix_test [of "request_for ''/3lwqk-old/gh/nginx/nginx/raw/master/CHANGELOG''" "upstream_status 200" "[]"]
    gate_is_a_prefix_test [of "request_for ''/3lwqk/gh/nginx/nginx/raw/master/CHANGELOG''" "upstream_status 200" "[]"]
  by (simp add: request_for_def startsWith_def PREFIX_ACCESS_def PREFIX_GH_def)


section \<open>Unmatched paths\<close>

lemma usage_guide_title: "take 11 (drop 202 generateUsageGuide) = ''Usage Guide''"
  by (simp add: generateUsageGuide_def)

lemma usage_guide_html_header: "headers_has [(''Content-Type'', ''text/html'')] ''content-type''"
  by code_simp

text \<open>
  C7.  A path that passes both gates and matches none of the four patterns is answered
  400 with the usage guide as an HTML body, which contains the text \<^verbatim>\<open>Usage Guide\<close>; the
  log of outbound calls is unchanged, so nothing was fetched.
\<close>

theorem unmatched_path_gets_usage_guide:
  assumes "startsWith (pathname (req_url request)) PREFIX_ACCESS"
    and "path = replace (pathname (req_url request)) PREFIX_ACCESS ''''"
    and "startsWith path PREFIX_GH"
    and "js_match path releaseRe = None" "js_match path versionRe = None"
    and "js_match path blobRe = None" "js_match path rawRe = None"
  shows "handleRequest net request log =
           (Inr \<lparr>status = 400, headers = [(''Content-Type'', ''text/html'')],
                 body = Some generateUsageGuide\<rparr>, log)
    \<and> (\<exists>pre post. generateUsageGuide = pre @ ''Usage Guide'' @ post)"
proof
  show "handleRequest net request log =
           (Inr \<lparr>status = 400, headers = [(''Content-Type'', ''text/html'')],
                 body = Some generateUsageGuide\<rparr>, log)"
    using assms
    by (simp add: handleRequest_def handleGitHubRequest_def Let_def Response_text_def
        usage_guide_html_header)
next
  have "generateUsageGuide
      = take 202 generateUsageGuide @ take 11 (drop 202 generateUsageGuide)
          @ drop 11 (drop 202 generateUsageGuide)"
    by (simp only: append_take_drop_id)
  then have "generateUsageGuide
      = take 202 generateUsageGuide @ ''Usage Guide'' @ drop 11 (drop 202 generateUsageGuide)"
    by (simp only: usage_guide_title)
  then show "\<exists>pre post. generateUsageGuide = pre @ ''Usage Guide'' @ post"
    by blast
qed

theorem unmatched_path_gets_usage_guide_witness:
  "handleRequest (upstream_status 200) (request_for ''/3lwqk/gh/nginx/nginx'') []
     = (Inr \<lparr>status = 400, headers = [(''Content-Type'', ''text/html'')],
             body = Some generateUsageGuide\<rparr>, [])
   \<and> (\<exists>pre post. generateUsageGuide = pre @ ''Usage Guide'' @ post)"
proof -
  have p: "replace ''/3lwqk/gh/nginx/nginx'' PREFIX_ACCESS '''' = ''/gh/nginx/nginx''"
    by (simp add: PREFIX_ACCESS_def startsWith_def)
  have m: "js_match ''/gh/nginx/nginx'' releaseRe = None" "js_match ''/gh/nginx/nginx'' versionRe = None"
    "js_match ''/gh/nginx/nginx'' blobRe = None" "js_match ''/gh/nginx/nginx'' rawRe = None"
    by (simp_all add: js_match_def releaseRe_def versionRe_def blobRe_def rawRe_def lit_def)
  show ?thesis
    using unmatched_path_gets_usage_guide [of "request_for ''/3lwqk/gh/nginx/nginx''"
        "''/gh/nginx/nginx''" "upstream_status 200" "[]"] p m
    by (simp add: request_for_def startsWith_def PREFIX_ACCESS_def PREFIX_GH_def)
qed

section \<open>The relayed response\<close>

lemma same_name_refl: "same_name n n"
  by (simp add: same_name_def)

lemma named_other: "named n h \<Longrightarrow> \<not> same_name m n \<Longrightarrow> \<not> named m h"
  by (auto simp: named_def same_name_def)

lemma filter_named_without: "filter (named n) (filter (\<lambda>h. \<not> named n h) hs) = []"
  by (induction hs) auto

lemma filter_other_without:
  "\<not> same_name m n \<Longrightarrow> filter (named m) (filter (\<lambda>h. \<not> named n h) hs) = filter (named m) hs"
  by (induction hs) (auto dest: named_other)

lemma set_first_named:
  "list_ex (named n) hs \<Longrightarrow> map snd (filter (named n) (set_first hs n v)) = [v]"
  by (induction hs) (auto simp: named_def filter_named_without)

lemma set_first_rest:
  "filter (\<lambda>h. \<not> named n h) (set_first hs n v) = filter (\<lambda>h. \<not> named n h) hs"
  by (induction hs) (auto simp: named_def)

lemma set_first_other:
  "\<not> same_name m n \<Longrightarrow> filter (named m) (set_first hs n v) = filter (named m) hs"
proof (induction hs)
  case Nil show ?case by simp
next
  case (Cons h hs)
  show ?case
  proof (cases "named n h")
    case True
    then have "\<not> named m h" "\<not> named m (fst h, v)"
      using Cons.prems by (auto simp: named_def same_name_def)
    then show ?thesis using True Cons.prems by (simp add: filter_other_without del: filter_filter)
  next
    case False
    then show ?thesis using Cons by simp
  qed
qed

lemma headers_get_set: "headers_get (headers_set hs n v) n = Some v"
proof (cases "headers_has hs n")
  case True
  then have "map snd (filter (named n) (set_first hs n v)) = [v]"
    unfolding headers_has_def by (rule set_first_named)
  then show ?thesis using True
    by (auto simp: headers_get_def headers_set_def split: list.splits)
next
  case False
  then have "filter (named n) hs = []"
    by (auto simp: headers_has_def list_ex_iff filter_empty_conv)
  then show ?thesis using False
    by (simp add: headers_get_def headers_set_def named_def same_name_refl)
qed

lemma named_self: "named n (n, v)"
  by (simp add: named_def same_name_refl)

lemma headers_set_rest:
  "filter (\<lambda>h. \<not> named n h) (headers_set hs n v) = filter (\<lambda>h. \<not> named n h) hs"
  by (simp add: headers_set_def set_first_rest named_self)

lemma headers_get_set_other:
  assumes "\<not> same_name m n"
  shows "headers_get (headers_set hs n v) m = headers_get hs m"
proof -
  have "\<not> named m (n, v)" using assms by (simp add: named_def same_name_def eq_commute)
  then have "filter (named m) (headers_set hs n v) = filter (named m) hs"
    using assms by (simp add: headers_set_def set_first_other)
  then show ?thesis by (simp add: headers_get_def)
qed

text \<open>
  C5.  When the upstream answers, \<^verbatim>\<open>fetchWithCors\<close> makes one call and relays the answer:
  same status, same body, and the upstream headers with \<^verbatim>\<open>access-control-allow-origin\<close>
  set, so that this header reads \<^verbatim>\<open>*\<close> whatever the upstream sent and every header of
  another name is as the upstream sent it.  Conversely every response that
  \<^verbatim>\<open>fetchWithCors\<close> returns is such a relay of the upstream's answer.
\<close>

theorem relay_sets_cors_and_keeps_the_rest:
  "(\<forall>res. net (length log) (GET u) = Inr res \<longrightarrow>
      fetchWithCors net u request log
        = (Inr \<lparr>status = status res,
                headers = headers_set (headers res) ''access-control-allow-origin'' ''*'',
                body = body res\<rparr>, log @ [GET u])
      \<and> headers_get (headers_set (headers res) ''access-control-allow-origin'' ''*'')
           ''access-control-allow-origin'' = Some ''*''
      \<and> (\<forall>n. \<not> same_name n ''access-control-allow-origin'' \<longrightarrow>
            headers_get (headers_set (headers res) ''access-control-allow-origin'' ''*'') n
              = headers_get (headers res) n)
      \<and> filter (\<lambda>h. \<not> named ''access-control-allow-origin'' h)
           (headers_set (headers res) ''access-control-allow-origin'' ''*'')
         = filter (\<lambda>h. \<not> named ''access-control-allow-origin'' h) (headers res))
   \<and> (\<forall>r log'. fetchWithCors net u request log = (Inr r, log') \<longrightarrow>
         (\<exists>res. net (length log) (GET u) = Inr res
            \<and> r = \<lparr>status = status res,
                    headers = headers_set (headers res) ''access-control-allow-origin'' ''*'',
                    body = body res\<rparr>
            \<and> log' = log @ [GET u]))"
proof (intro conjI allI impI)
  fix res assume "net (length log) (GET u) = Inr res"
  then show "fetchWithCors net u request log
        = (Inr \<lparr>status = status res,
                headers = headers_set (headers res) ''access-control-allow-origin'' ''*'',
                body = body res\<rparr>, log @ [GET u])"
    by (simp add: fetchWithCors_eq)
next
  fix res
  show "headers_get (headers_set (headers res) ''access-control-allow-origin'' ''*'')
           ''access-control-allow-origin'' = Some ''*''"
    by (rule headers_get_set)
next
  fix res n assume "\<not> same_name n ''access-control-allow-origin''"
  then show "headers_get (headers_set (headers res) ''access-control-allow-origin'' ''*'') n
              = headers_get (headers res) n"
    by (rule headers_get_set_other)
next
  fix res
  show "filter (\<lambda>h. \<not> named ''access-control-allow-origin'' h)
           (headers_set (headers res) ''access-control-allow-origin'' ''*'')
         = filter (\<lambda>h. \<not> named ''access-control-allow-origin'' h) (headers res)"
    by (rule headers_set_rest)
next
  fix r log' assume a: "fetchWithCors net u request log = (Inr r, log')"
  show "\<exists>res. net (length log) (GET u) = Inr res
            \<and> r = \<lparr>status = status res,
                    headers = headers_set (headers res) ''access-control-allow-origin'' ''*'',
                    body = body res\<rparr>
            \<and> log' = log @ [GET u]"
  proof (cases "net (length log) (GET u)")
    case (Inl e)
    with a show ?thesis by (simp add: fetchWithCors_eq)
  next
    case (Inr res)
    with a show ?thesis by (auto simp: fetchWithCors_eq)
  qed
qed

theorem relay_sets_cors_and_keeps_the_rest_witness:
  "fetchWithCors (upstream_status 206) ''https://github.com/o/r/raw/refs/tags/t/f''
       (request_for ''/3lwqk/gh/o/r@t/f'') []
     = (Inr \<lparr>status = 206,
             headers = headers_set [(''Content-Type'', ''application/gzip''),
                 (''Access-Control-Allow-Origin'', ''https://github.com'')]
               ''access-control-allow-origin'' ''*'',
             body = Some ''https://github.com/o/r/raw/refs/tags/t/f''\<rparr>,
        [GET ''https://github.com/o/r/raw/refs/tags/t/f''])
   \<and> headers_set [(''Content-Type'', ''application/gzip''),
          (''Access-Control-Allow-Origin'', ''https://github.com'')] ''access-control-allow-origin'' ''*''
       = [(''Content-Type'', ''application/gzip''), (''Access-Control-Allow-Origin'', ''*'')]
   \<and> headers_get (headers_set [(''Content-Type'', ''application/gzip''),
          (''Access-Control-Allow-Origin'', ''https://github.com'')] ''access-control-allow-origin'' ''*'')
        ''access-control-allow-origin'' = Some ''*''
   \<and> headers_get (headers_set [(''Content-Type'', ''application/gzip''),
          (''Access-Control-Allow-Origin'', ''https://github.com'')] ''access-control-allow-origin'' ''*'')
        ''content-type'' = Some ''application/gzip''"
proof -
  have up: "upstream_status 206 (length ([] :: out_request list)) (GET ''https://github.com/o/r/raw/refs/tags/t/f'')
      = Inr \<lparr>status = 206,
          headers = [(''Content-Type'', ''application/gzip''),
                     (''Access-Control-Allow-Origin'', ''https://github.com'')],
          body = Some ''https://github.com/o/r/raw/refs/tags/t/f''\<rparr>"
    by (simp add: upstream_status_def GET_def)
  have n: "\<not> same_name ''content-type'' ''access-control-allow-origin''"
    by code_simp
  have s: "headers_set [(''Content-Type'', ''application/gzip''),
          (''Access-Control-Allow-Origin'', ''https://github.com'')] ''access-control-allow-origin'' ''*''
       = [(''Content-Type'', ''application/gzip''), (''Access-Control-Allow-Origin'', ''*'')]"
    by code_simp
  have g: "headers_get [(''Content-Type'', ''application/gzip''),
          (''Access-Control-Allow-Origin'', ''https://github.com'')] ''content-type'' = Some ''application/gzip''"
    by code_simp
  note t = relay_sets_cors_and_keeps_the_rest [of "upstream_status 206" "[]" "''https://github.com/o/r/raw/refs/tags/t/f''"
      "request_for ''/3lwqk/gh/o/r@t/f''", THEN conjunct1, rule_format, OF up]
  have 1: "fetchWithCors (upstream_status 206) ''https://github.com/o/r/raw/refs/tags/t/f''
       (request_for ''/3lwqk/gh/o/r@t/f'') []
     = (Inr \<lparr>status = 206,
             headers = headers_set [(''Content-Type'', ''application/gzip''),
                 (''Access-Control-Allow-Origin'', ''https://github.com'')]
               ''access-control-allow-origin'' ''*'',
             body = Some ''https://github.com/o/r/raw/refs/tags/t/f''\<rparr>,
        [GET ''https://github.com/o/r/raw/refs/tags/t/f''])"
    using t [THEN conjunct1] by simp
  have 2: "headers_get (headers_set [(''Content-Type'', ''application/gzip''),
          (''Access-Control-Allow-Origin'', ''https://github.com'')] ''access-control-allow-origin'' ''*'')
        ''access-control-allow-origin'' = Some ''*''"
    using t [THEN conjunct2, THEN conjunct1] by simp
  have 3: "headers_get (headers_set [(''Content-Type'', ''application/gzip''),
          (''Access-Control-Allow-Origin'', ''https://github.com'')] ''access-control-allow-origin'' ''*'')
        ''content-type'' = Some ''application/gzip''"
    using t [THEN conjunct2, THEN conjunct2, THEN conjunct1, rule_format, OF n] g by simp
  from 1 s 2 3 show ?thesis by (intro conjI)
qed

section \<open>What the routing depends on\<close>

lemma handleGitHubRequest_ignores_request:
  "handleGitHubRequest net path r1 log = handleGitHubRequest net path r2 log"
  unfolding handleGitHubRequest_def releaseDownload_def fetchWithCors_def by (rule refl)

lemma releaseDownload_log:
  "snd (releaseDownload net u request log) = log @ [GET u]
   \<or> snd (releaseDownload net u request log) = log @ [GET u, GET u]"
  by (simp add: releaseDownload_eq split: sum.splits)

lemma handleGitHubRequest_log:
  "\<exists>us. snd (handleGitHubRequest net path request log) = log @ map GET us"
proof -
  have rel: "\<exists>us. snd (releaseDownload net u request log) = log @ map GET us" for u
    using releaseDownload_log [of net u request log]
  proof
    assume "snd (releaseDownload net u request log) = log @ [GET u]"
    then show ?thesis by (intro exI [of _ "[u]"]) simp
  next
    assume "snd (releaseDownload net u request log) = log @ [GET u, GET u]"
    then show ?thesis by (intro exI [of _ "[u, u]"]) simp
  qed
  have cors: "\<exists>us. snd (fetchWithCors net u request log) = log @ map GET us" for u
    by (intro exI [of _ "[u]"]) (simp add: fetchWithCors_log)
  have none: "\<exists>us. log = log @ map GET us"
    by (intro exI [of _ "[]"]) simp
  show ?thesis
    unfolding handleGitHubRequest_def Let_def
    using rel cors none by (simp split: option.splits)
qed

text \<open>
  C9.  Two requests with the same path get the same answer and cause the same outbound
  calls, whatever their method, headers, body and query string; and every outbound call
  is a \<^verbatim>\<open>GET\<close> of a URL, without headers and without a body.
\<close>

theorem routing_depends_on_pathname_only:
  assumes "pathname (req_url r1) = pathname (req_url r2)"
  shows "handleRequest net r1 log = handleRequest net r2 log
    \<and> (\<exists>us. snd (handleRequest net r1 log)
          = log @ map (\<lambda>u. \<lparr>out_method = ''GET'', out_url = u, out_headers = [], out_body = None\<rparr>) us)"
proof
  show "handleRequest net r1 log = handleRequest net r2 log"
    unfolding handleRequest_gate using assms handleGitHubRequest_ignores_request [of net _ r1 log r2]
    by simp
next
  have "\<exists>us. snd (handleRequest net r1 log) = log @ map GET us"
  proof (cases "startsWith (pathname (req_url r1)) (PREFIX_ACCESS @ PREFIX_GH)")
    case True
    then show ?thesis unfolding handleRequest_gate by (simp add: handleGitHubRequest_log)
  next
    case False
    then show ?thesis unfolding handleRequest_gate by (intro exI [of _ "[]"]) simp
  qed
  moreover have "GET = (\<lambda>u. \<lparr>out_method = ''GET'', out_url = u, out_headers = [], out_body = None\<rparr>)"
    by (rule ext) (simp add: GET_def)
  ultimately show "\<exists>us. snd (handleRequest net r1 log)
      = log @ map (\<lambda>u. \<lparr>out_method = ''GET'', out_url = u, out_headers = [], out_body = None\<rparr>) us"
    by simp
qed

theorem routing_depends_on_pathname_only_witness:
  "handleRequest (upstream_status 200)
       \<lparr>req_method = ''POST'',
        req_url = \<lparr>origin = ''https://dl09.net'', pathname = ''/3lwqk/gh/nginx/nginx@1.2.6/CHANGELOG'',
                   search = ''?download=1''\<rparr>,
        req_headers = [(''authorization'', ''Bearer secret'')], req_body = Some ''payload''\<rparr> []
     = handleRequest (upstream_status 200) (request_for ''/3lwqk/gh/nginx/nginx@1.2.6/CHANGELOG'') []
   \<and> snd (handleRequest (upstream_status 200)
       \<lparr>req_method = ''POST'',
        req_url = \<lparr>origin = ''https://dl09.net'', pathname = ''/3lwqk/gh/nginx/nginx@1.2.6/CHANGELOG'',
                   search = ''?download=1''\<rparr>,
        req_headers = [(''authorization'', ''Bearer secret'')], req_body = Some ''payload''\<rparr> [])
     = [\<lparr>out_method = ''GET'', out_url = ''https://github.com/nginx/nginx/raw/refs/tags/1.2.6/CHANGELOG'',
         out_headers = [], out_body = None\<rparr>]"
proof -
  have "snd (handleRequest (upstream_status 200)
       \<lparr>req_method = ''POST'',
        req_url = \<lparr>origin = ''https://dl09.net'', pathname = ''/3lwqk/gh/nginx/nginx@1.2.6/CHANGELOG'',
                   search = ''?download=1''\<rparr>,
        req_headers = [(''authorization'', ''Bearer secret'')], req_body = Some ''payload''\<rparr> [])
     = [\<lparr>out_method = ''GET'', out_url = ''https://github.com/nginx/nginx/raw/refs/tags/1.2.6/CHANGELOG'',
         out_headers = [], out_body = None\<rparr>]"
    by code_simp
  then show ?thesis
    using routing_depends_on_pathname_only [of
        "\<lparr>req_method = ''POST'',
          req_url = \<lparr>origin = ''https://dl09.net'', pathname = ''/3lwqk/gh/nginx/nginx@1.2.6/CHANGELOG'',
                     search = ''?download=1''\<rparr>,
          req_headers = [(''authorization'', ''Bearer secret'')], req_body = Some ''payload''\<rparr>"
        "request_for ''/3lwqk/gh/nginx/nginx@1.2.6/CHANGELOG''" "upstream_status 200" "[]"]
    by (simp add: request_for_def)
qed

section \<open>How the patterns overlap\<close>

lemma after_two_segments:
  assumes "rmatch (lit ''/gh/'' @ (segment # Ch CHR ''/'' # segment # Ch CHR ''/'' # (lit w @ R))) s caps \<noteq> None"
  shows "take (length w) (after_segment (after_segment (drop 4 s))) = w"
  using assms unfolding rmatch_lit rmatch_segment_slash
  by (simp add: after_segment_def eval_nat_numeral split: if_splits list.splits del: rmatch.simps)

lemma take2_of_word:
  assumes "take (length w) X = w" "2 \<le> length w"
  shows "take 2 X = take 2 w"
proof -
  from assms(1) have "take 2 (take (length w) X) = take 2 w" by (rule arg_cong)
  with assms(2) show ?thesis by (simp add: min_def)
qed

lemma release_third: "rmatch releaseRe s [] \<noteq> None \<Longrightarrow> take 2 (after_segment (after_segment (drop 4 s))) = ''re''"
  unfolding releaseRe_eq by (drule after_two_segments, drule take2_of_word) simp_all

lemma blob_third: "rmatch blobRe s [] \<noteq> None \<Longrightarrow> take 2 (after_segment (after_segment (drop 4 s))) = ''bl''"
  unfolding blobRe_eq by (drule after_two_segments, drule take2_of_word) simp_all

lemma raw_third: "rmatch rawRe s [] \<noteq> None \<Longrightarrow> take 2 (after_segment (after_segment (drop 4 s))) = ''ra''"
  unfolding rawRe_eq by (drule after_two_segments, drule take2_of_word) simp_all

lemma version_needs_inner_at:
  assumes "rmatch versionRe s [] \<noteq> None"
  shows "CHR ''@'' \<in> set (butlast (tl (repo_segment s)))"
proof (rule ccontr)
  assume "CHR ''@'' \<notin> set (butlast (tl (repo_segment s)))"
  then have "rmatch (segment # Ch CHR ''@'' # segment # Ch CHR ''/'' # [CapStar AnyChar])
      (after_segment (drop 4 s)) caps = None" for caps
    unfolding repo_segment_def by (rule version_tail_None)
  with assms show False
    unfolding versionRe_eq rmatch_lit rmatch_segment_slash
    by (simp add: after_segment_def eval_nat_numeral split: if_splits list.splits del: rmatch.simps)
qed

lemma release_tail: "rmatch releaseRe s [] \<noteq> None \<Longrightarrow> startsWith (after_repo s) ''releases/download/''"
  unfolding releaseRe_eq startsWith_def after_repo_def by (rule after_two_segments)

lemma blob_tail: "rmatch blobRe s [] \<noteq> None \<Longrightarrow> startsWith (after_repo s) ''blob/''"
  unfolding blobRe_eq startsWith_def after_repo_def by (rule after_two_segments)

lemma raw_tail: "rmatch rawRe s [] \<noteq> None \<Longrightarrow> startsWith (after_repo s) ''raw/''"
  unfolding rawRe_eq startsWith_def after_repo_def by (rule after_two_segments)

text \<open>
  C2 (amended).  The release-download, blob and raw patterns are pairwise disjoint.  At
  most one of the four patterns matches, except when the short-version pattern matches
  together with one of the other three.  That needs an \<^verbatim>\<open>@\<close> strictly inside the second
  segment after \<^verbatim>\<open>/gh/\<close> and, after that segment, a remainder that begins with
  \<^verbatim>\<open>releases/download/\<close>, \<^verbatim>\<open>blob/\<close> or \<^verbatim>\<open>raw/\<close>; on every other path at most one pattern
  matches.  Where two patterns match, the fixed order decides: a release-download match
  is handled as a release download whatever else matches, and without one a short-version
  match is handled as a short version whatever the blob and raw patterns say.
\<close>

theorem patterns_overlap_only_through_at:
  "length (filter (\<lambda>re. js_match path re \<noteq> None) [releaseRe, blobRe, rawRe]) \<le> 1
   \<and> (length (filter (\<lambda>re. js_match path re \<noteq> None) [releaseRe, versionRe, blobRe, rawRe]) \<le> 1
        \<longleftrightarrow> \<not> (js_match path versionRe \<noteq> None
                \<and> (js_match path releaseRe \<noteq> None \<or> js_match path blobRe \<noteq> None
                    \<or> js_match path rawRe \<noteq> None)))
   \<and> (CHR ''@'' \<notin> set (butlast (tl (repo_segment path)))
        \<or> \<not> (startsWith (after_repo path) ''releases/download/''
               \<or> startsWith (after_repo path) ''blob/'' \<or> startsWith (after_repo path) ''raw/'') \<longrightarrow>
       length (filter (\<lambda>re. js_match path re \<noteq> None) [releaseRe, versionRe, blobRe, rawRe]) \<le> 1)
   \<and> (\<forall>m. js_match path releaseRe = Some m \<longrightarrow>
         handleGitHubRequest net path request log
           = releaseDownload net (releaseUrl (elem m 1) (elem m 2) (elem m 3) (elem m 4)) request log)
   \<and> (\<forall>m. js_match path releaseRe = None \<and> js_match path versionRe = Some m \<longrightarrow>
         handleGitHubRequest net path request log
           = fetchWithCors net (versionUrl (elem m 1) (elem m 2) (elem m 3) (elem m 4)) request log)"
proof -
  let ?tail = "take 2 (after_segment (after_segment (drop 4 path)))"
  have rb: "\<not> (rmatch releaseRe path [] \<noteq> None \<and> rmatch blobRe path [] \<noteq> None)"
  proof
    assume h: "rmatch releaseRe path [] \<noteq> None \<and> rmatch blobRe path [] \<noteq> None"
    have "?tail = ''re''" using h [THEN conjunct1] by (rule release_third)
    moreover have "?tail = ''bl''" using h [THEN conjunct2] by (rule blob_third)
    ultimately show False by simp
  qed
  have rr: "\<not> (rmatch releaseRe path [] \<noteq> None \<and> rmatch rawRe path [] \<noteq> None)"
  proof
    assume h: "rmatch releaseRe path [] \<noteq> None \<and> rmatch rawRe path [] \<noteq> None"
    have "?tail = ''re''" using h [THEN conjunct1] by (rule release_third)
    moreover have "?tail = ''ra''" using h [THEN conjunct2] by (rule raw_third)
    ultimately show False by simp
  qed
  have br: "\<not> (rmatch blobRe path [] \<noteq> None \<and> rmatch rawRe path [] \<noteq> None)"
  proof
    assume h: "rmatch blobRe path [] \<noteq> None \<and> rmatch rawRe path [] \<noteq> None"
    have "?tail = ''bl''" using h [THEN conjunct1] by (rule blob_third)
    moreover have "?tail = ''ra''" using h [THEN conjunct2] by (rule raw_third)
    ultimately show False by simp
  qed
  have three: "length (filter (\<lambda>re. js_match path re \<noteq> None) [releaseRe, blobRe, rawRe]) \<le> 1"
    unfolding js_match_None using rb rr br
    by (cases "rmatch releaseRe path [] = None"; cases "rmatch blobRe path [] = None";
        cases "rmatch rawRe path [] = None"; simp)
  have four: "length (filter (\<lambda>re. js_match path re \<noteq> None) [releaseRe, versionRe, blobRe, rawRe]) \<le> 1
        \<longleftrightarrow> \<not> (js_match path versionRe \<noteq> None
                \<and> (js_match path releaseRe \<noteq> None \<or> js_match path blobRe \<noteq> None
                    \<or> js_match path rawRe \<noteq> None))"
    unfolding js_match_None using rb rr br
    by (cases "rmatch releaseRe path [] = None"; cases "rmatch blobRe path [] = None";
        cases "rmatch rawRe path [] = None"; cases "rmatch versionRe path [] = None"; simp)
  have v: "CHR ''@'' \<in> set (butlast (tl (repo_segment path)))" if "js_match path versionRe \<noteq> None"
    using that unfolding js_match_None by (rule version_needs_inner_at)
  have t: "startsWith (after_repo path) ''releases/download/''
        \<or> startsWith (after_repo path) ''blob/'' \<or> startsWith (after_repo path) ''raw/''"
    if "js_match path releaseRe \<noteq> None \<or> js_match path blobRe \<noteq> None \<or> js_match path rawRe \<noteq> None"
  proof -
    from that consider "rmatch releaseRe path [] \<noteq> None" | "rmatch blobRe path [] \<noteq> None"
      | "rmatch rawRe path [] \<noteq> None"
      unfolding js_match_None by blast
    then show ?thesis
    proof cases
      case 1
      then have "startsWith (after_repo path) ''releases/download/''" by (rule release_tail)
      then show ?thesis by (rule disjI1)
    next
      case 2
      then have "startsWith (after_repo path) ''blob/''" by (rule blob_tail)
      then show ?thesis by (intro disjI2 disjI1)
    next
      case 3
      then have "startsWith (after_repo path) ''raw/''" by (rule raw_tail)
      then show ?thesis by (intro disjI2)
    qed
  qed
  have syn: "CHR ''@'' \<notin> set (butlast (tl (repo_segment path)))
        \<or> \<not> (startsWith (after_repo path) ''releases/download/''
               \<or> startsWith (after_repo path) ''blob/'' \<or> startsWith (after_repo path) ''raw/'') \<longrightarrow>
       length (filter (\<lambda>re. js_match path re \<noteq> None) [releaseRe, versionRe, blobRe, rawRe]) \<le> 1"
    unfolding four using v t by blast
  have o1: "\<forall>m. js_match path releaseRe = Some m \<longrightarrow>
         handleGitHubRequest net path request log
           = releaseDownload net (releaseUrl (elem m 1) (elem m 2) (elem m 3) (elem m 4)) request log"
    by (simp add: handleGitHubRequest_def)
  have o2: "\<forall>m. js_match path releaseRe = None \<and> js_match path versionRe = Some m \<longrightarrow>
         handleGitHubRequest net path request log
           = fetchWithCors net (versionUrl (elem m 1) (elem m 2) (elem m 3) (elem m 4)) request log"
    by (simp add: handleGitHubRequest_def)
  from three four syn o1 o2 show ?thesis by (intro conjI)
qed

theorem patterns_overlap_only_through_at_witness:
  "length (filter (\<lambda>re. js_match ''/gh/jquery/jquery@3.6.4/dist/jquery.min.js'' re \<noteq> None)
      [releaseRe, versionRe, blobRe, rawRe]) \<le> 1
   \<and> js_match ''/gh/jquery/jquery@3.6.4/dist/jquery.min.js'' versionRe
       = Some [''/gh/jquery/jquery@3.6.4/dist/jquery.min.js'', ''jquery'', ''jquery'', ''3.6.4'',
               ''dist/jquery.min.js'']
   \<and> length (filter (\<lambda>re. js_match ''/gh/nginx/nginx/raw/master/CHANGELOG'' re \<noteq> None)
      [releaseRe, versionRe, blobRe, rawRe]) \<le> 1
   \<and> js_match ''/gh/nginx/nginx/raw/master/CHANGELOG'' rawRe
       = Some [''/gh/nginx/nginx/raw/master/CHANGELOG'', ''nginx'', ''nginx'', ''master'', ''CHANGELOG'']
   \<and> \<not> length (filter (\<lambda>re. js_match ''/gh/o/r@t/blob/x/f'' re \<noteq> None)
      [releaseRe, versionRe, blobRe, rawRe]) \<le> 1
   \<and> handleGitHubRequest (upstream_status 200) ''/gh/o/r@t/blob/x/f'' (request_for ''/3lwqk/gh/o/r@t/blob/x/f'') []
       = fetchWithCors (upstream_status 200) ''https://github.com/o/r/raw/refs/tags/t/blob/x/f''
           (request_for ''/3lwqk/gh/o/r@t/blob/x/f'') []
   \<and> handleGitHubRequest (upstream_status 200) ''/gh/o/r@t/releases/download/x/f''
         (request_for ''/3lwqk/gh/o/r@t/blob/x/f'') []
       = releaseDownload (upstream_status 200) ''https://github.com/o/r@t/releases/download/x/f''
           (request_for ''/3lwqk/gh/o/r@t/blob/x/f'') []"
proof -
  have j: "\<not> (startsWith (after_repo ''/gh/jquery/jquery@3.6.4/dist/jquery.min.js'') ''releases/download/''
       \<or> startsWith (after_repo ''/gh/jquery/jquery@3.6.4/dist/jquery.min.js'') ''blob/''
       \<or> startsWith (after_repo ''/gh/jquery/jquery@3.6.4/dist/jquery.min.js'') ''raw/'')"
    by (simp add: after_repo_def after_segment_def startsWith_def)
  have jv: "js_match ''/gh/jquery/jquery@3.6.4/dist/jquery.min.js'' versionRe
       = Some [''/gh/jquery/jquery@3.6.4/dist/jquery.min.js'', ''jquery'', ''jquery'', ''3.6.4'',
               ''dist/jquery.min.js'']"
    by code_simp
  have n: "CHR ''@'' \<notin> set (butlast (tl (repo_segment ''/gh/nginx/nginx/raw/master/CHANGELOG'')))"
    by (simp add: repo_segment_def after_segment_def)
  have nr: "js_match ''/gh/nginx/nginx/raw/master/CHANGELOG'' rawRe
       = Some [''/gh/nginx/nginx/raw/master/CHANGELOG'', ''nginx'', ''nginx'', ''master'', ''CHANGELOG'']"
    by code_simp
  have ov: "js_match ''/gh/o/r@t/blob/x/f'' versionRe = Some [''/gh/o/r@t/blob/x/f'', ''o'', ''r'', ''t'', ''blob/x/f'']"
    "js_match ''/gh/o/r@t/blob/x/f'' blobRe = Some [''/gh/o/r@t/blob/x/f'', ''o'', ''r@t'', ''x'', ''f'']"
    "js_match ''/gh/o/r@t/blob/x/f'' releaseRe = None"
    by code_simp+
  have orl: "js_match ''/gh/o/r@t/releases/download/x/f'' releaseRe
      = Some [''/gh/o/r@t/releases/download/x/f'', ''o'', ''r@t'', ''x'', ''f'']"
    by code_simp
  have 1: "length (filter (\<lambda>re. js_match ''/gh/jquery/jquery@3.6.4/dist/jquery.min.js'' re \<noteq> None)
      [releaseRe, versionRe, blobRe, rawRe]) \<le> 1"
    using patterns_overlap_only_through_at [of "''/gh/jquery/jquery@3.6.4/dist/jquery.min.js''"] j by blast
  have 2: "length (filter (\<lambda>re. js_match ''/gh/nginx/nginx/raw/master/CHANGELOG'' re \<noteq> None)
      [releaseRe, versionRe, blobRe, rawRe]) \<le> 1"
    using patterns_overlap_only_through_at [of "''/gh/nginx/nginx/raw/master/CHANGELOG''"] n by blast
  have 3: "\<not> length (filter (\<lambda>re. js_match ''/gh/o/r@t/blob/x/f'' re \<noteq> None)
      [releaseRe, versionRe, blobRe, rawRe]) \<le> 1"
    using patterns_overlap_only_through_at [of "''/gh/o/r@t/blob/x/f''"] ov by simp
  have 4: "handleGitHubRequest (upstream_status 200) ''/gh/o/r@t/blob/x/f'' (request_for ''/3lwqk/gh/o/r@t/blob/x/f'') []
       = fetchWithCors (upstream_status 200) ''https://github.com/o/r/raw/refs/tags/t/blob/x/f''
           (request_for ''/3lwqk/gh/o/r@t/blob/x/f'') []"
    using patterns_overlap_only_through_at [of "''/gh/o/r@t/blob/x/f''" "upstream_status 200"
        "request_for ''/3lwqk/gh/o/r@t/blob/x/f''" "[]"] ov
    by (simp add: elem_def versionUrl_def)
  have 5: "handleGitHubRequest (upstream_status 200) ''/gh/o/r@t/releases/download/x/f''
         (request_for ''/3lwqk/gh/o/r@t/blob/x/f'') []
       = releaseDownload (upstream_status 200) ''https://github.com/o/r@t/releases/download/x/f''
           (request_for ''/3lwqk/gh/o/r@t/blob/x/f'') []"
    using patterns_overlap_only_through_at [of "''/gh/o/r@t/releases/download/x/f''" "upstream_status 200"
        "request_for ''/3lwqk/gh/o/r@t/blob/x/f''" "[]"] orl
    by (simp add: elem_def releaseUrl_def)
  from 1 jv 2 nr 3 4 5 show ?thesis by (intro conjI)
qed

text \<open>
  The four patterns are not pairwise disjoint: this path matches the short-version
  pattern and the blob pattern, with different captures.
\<close>

theorem patterns_disjoint_counterexample:
  "js_match ''/gh/o/r@t/blob/x/f'' versionRe = Some [''/gh/o/r@t/blob/x/f'', ''o'', ''r'', ''t'', ''blob/x/f'']
   \<and> js_match ''/gh/o/r@t/blob/x/f'' blobRe = Some [''/gh/o/r@t/blob/x/f'', ''o'', ''r@t'', ''x'', ''f'']"
  by code_simp


section \<open>Segments outside the validator's class\<close>

text \<open>
  C10 (amended).  The validator \<^verbatim>\<open>isValidGitHubParameter\<close> plays no part in routing: owner,
  repository and ref may be any non-empty text without a slash, inside the class
  \<^verbatim>\<open>[a-zA-Z0-9_.-]\<close> or not, and the path is routed by its shape with these very
  segments in the upstream URL.  The provisos concern \<^verbatim>\<open>@\<close> only: a short-version path
  must not also match the release-download pattern and its tag must have no \<^verbatim>\<open>@\<close> before
  its last character; in a blob or raw path the repository must have no \<^verbatim>\<open>@\<close> strictly
  inside it.
\<close>

theorem routing_is_permissive:
  assumes "owner \<noteq> []" "CHR ''/'' \<notin> set owner" "repo \<noteq> []" "CHR ''/'' \<notin> set repo"
    and "ref \<noteq> []" "CHR ''/'' \<notin> set ref" "\<not> list_ex line_terminator file"
  shows "handleGitHubRequest net
           (''/gh/'' @ owner @ ''/'' @ repo @ ''/releases/download/'' @ ref @ ''/'' @ file) request log
         = releaseDownload net (releaseUrl owner repo ref file) request log
    \<and> (CHR ''@'' \<notin> set (butlast ref)
        \<and> js_match (''/gh/'' @ owner @ ''/'' @ repo @ ''@'' @ ref @ ''/'' @ file) releaseRe = None \<longrightarrow>
          handleGitHubRequest net (''/gh/'' @ owner @ ''/'' @ repo @ ''@'' @ ref @ ''/'' @ file) request log
          = fetchWithCors net (versionUrl owner repo ref file) request log)
    \<and> (CHR ''@'' \<notin> set (butlast (tl repo)) \<longrightarrow>
          handleGitHubRequest net (''/gh/'' @ owner @ ''/'' @ repo @ ''/blob/'' @ ref @ ''/'' @ file) request log
          = fetchWithCors net (rawUrl owner repo ref file) request log
        \<and> handleGitHubRequest net (''/gh/'' @ owner @ ''/'' @ repo @ ''/raw/'' @ ref @ ''/'' @ file) request log
          = fetchWithCors net (rawUrl owner repo ref file) request log)"
proof (intro conjI impI)
  have "rmatch releaseRe (''/gh/'' @ owner @ ''/'' @ repo @ ''/releases/download/'' @ ref @ ''/'' @ file) []
      = Some [owner, repo, ref, file]"
    using assms(2,1,4,3,6,5,7) by (rule release_on_release)
  then show "handleGitHubRequest net
           (''/gh/'' @ owner @ ''/'' @ repo @ ''/releases/download/'' @ ref @ ''/'' @ file) request log
         = releaseDownload net (releaseUrl owner repo ref file) request log"
    by (rule handle_release)
next
  assume a: "CHR ''@'' \<notin> set (butlast ref)
        \<and> js_match (''/gh/'' @ owner @ ''/'' @ repo @ ''@'' @ ref @ ''/'' @ file) releaseRe = None"
  then have r: "rmatch releaseRe (''/gh/'' @ owner @ ''/'' @ repo @ ''@'' @ ref @ ''/'' @ file) [] = None"
    by (simp add: js_match_None)
  have v: "rmatch versionRe (''/gh/'' @ owner @ ''/'' @ repo @ ''@'' @ ref @ ''/'' @ file) []
      = Some [owner, repo, ref, file]"
    using assms(2,1,4,3,6,5) a assms(7) by (intro version_on_version) simp_all
  show "handleGitHubRequest net (''/gh/'' @ owner @ ''/'' @ repo @ ''@'' @ ref @ ''/'' @ file) request log
          = fetchWithCors net (versionUrl owner repo ref file) request log"
    using r v by (rule handle_version)
next
  assume a: "CHR ''@'' \<notin> set (butlast (tl repo))"
  have rb: "rmatch releaseRe (''/gh/'' @ owner @ ''/'' @ repo @ ''/'' @ (''blob/'' @ ref @ ''/'' @ file)) [] = None"
    using assms(2,1,4,3) by (rule release_on_other) simp
  have vb: "rmatch versionRe (''/gh/'' @ owner @ ''/'' @ repo @ ''/'' @ (''blob/'' @ ref @ ''/'' @ file)) [] = None"
    using assms(2,1,4) a by (rule version_on_other)
  have bb: "rmatch blobRe (''/gh/'' @ owner @ ''/'' @ repo @ ''/blob/'' @ ref @ ''/'' @ file) []
      = Some [owner, repo, ref, file]"
    using assms(2,1,4,3,6,5,7) by (rule blob_on_blob)
  show "handleGitHubRequest net (''/gh/'' @ owner @ ''/'' @ repo @ ''/blob/'' @ ref @ ''/'' @ file) request log
          = fetchWithCors net (rawUrl owner repo ref file) request log"
    using rb vb bb by (intro handle_blob) simp_all
next
  assume a: "CHR ''@'' \<notin> set (butlast (tl repo))"
  have rr: "rmatch releaseRe (''/gh/'' @ owner @ ''/'' @ repo @ ''/'' @ (''raw/'' @ ref @ ''/'' @ file)) [] = None"
    using assms(2,1,4,3) by (rule release_on_other) simp
  have vr: "rmatch versionRe (''/gh/'' @ owner @ ''/'' @ repo @ ''/'' @ (''raw/'' @ ref @ ''/'' @ file)) [] = None"
    using assms(2,1,4) a by (rule version_on_other)
  have br: "rmatch blobRe (''/gh/'' @ owner @ ''/'' @ repo @ ''/'' @ (''raw/'' @ ref @ ''/'' @ file)) [] = None"
    using assms(2,1,4,3) by (rule blob_on_other) simp
  have ww: "rmatch rawRe (''/gh/'' @ owner @ ''/'' @ repo @ ''/raw/'' @ ref @ ''/'' @ file) []
      = Some [owner, repo, ref, file]"
    using assms(2,1,4,3,6,5,7) by (rule raw_on_raw)
  show "handleGitHubRequest net (''/gh/'' @ owner @ ''/'' @ repo @ ''/raw/'' @ ref @ ''/'' @ file) request log
          = fetchWithCors net (rawUrl owner repo ref file) request log"
    using rr vr br ww by (intro handle_raw) simp_all
qed

theorem routing_is_permissive_witness:
  "\<not> isValidGitHubParameter ''o$'' \<and> \<not> isValidGitHubParameter ''r+r'' \<and> \<not> isValidGitHubParameter ''v~1''
   \<and> handleGitHubRequest (upstream_status 200) ''/gh/o$/r+r/releases/download/v~1/f''
         (request_for ''/3lwqk/gh/o$/r+r/releases/download/v~1/f'') []
       = releaseDownload (upstream_status 200) ''https://github.com/o$/r+r/releases/download/v~1/f''
         (request_for ''/3lwqk/gh/o$/r+r/releases/download/v~1/f'') []
   \<and> handleGitHubRequest (upstream_status 200) ''/gh/o$/r+r@v~1/f''
         (request_for ''/3lwqk/gh/o$/r+r/releases/download/v~1/f'') []
       = fetchWithCors (upstream_status 200) ''https://github.com/o$/r+r/raw/refs/tags/v~1/f''
         (request_for ''/3lwqk/gh/o$/r+r/releases/download/v~1/f'') []
   \<and> handleGitHubRequest (upstream_status 200) ''/gh/o$/r+r/blob/v~1/f''
         (request_for ''/3lwqk/gh/o$/r+r/releases/download/v~1/f'') []
       = fetchWithCors (upstream_status 200) ''https://raw.githubusercontent.com/o$/r+r/v~1/f''
         (request_for ''/3lwqk/gh/o$/r+r/releases/download/v~1/f'') []
   \<and> handleGitHubRequest (upstream_status 200) ''/gh/o$/r+r/raw/v~1/f''
         (request_for ''/3lwqk/gh/o$/r+r/releases/download/v~1/f'') []
       = fetchWithCors (upstream_status 200) ''https://raw.githubusercontent.com/o$/r+r/v~1/f''
         (request_for ''/3lwqk/gh/o$/r+r/releases/download/v~1/f'') []"
proof -
  have v: "\<not> isValidGitHubParameter ''o$''" "\<not> isValidGitHubParameter ''r+r''"
    "\<not> isValidGitHubParameter ''v~1''"
    by code_simp+
  have rel: "js_match ''/gh/o$/r+r@v~1/f'' releaseRe = None"
    by (simp add: js_match_def releaseRe_def lit_def)
  show ?thesis
    using routing_is_permissive [of "''o$''" "''r+r''" "''v~1''" "''f''" "upstream_status 200"
        "request_for ''/3lwqk/gh/o$/r+r/releases/download/v~1/f''" "[]"] v rel
    by (simp add: line_terminator_def releaseUrl_def versionUrl_def rawUrl_def)
qed

text \<open>
  Without the provisos the claim fails: with tag \<^verbatim>\<open>t@u\<close> the greedy repository group
  takes \<^verbatim>\<open>r@t\<close>, so the call does not go to the URL built from the segments \<^verbatim>\<open>r\<close> and
  \<^verbatim>\<open>t@u\<close>.
\<close>

theorem routing_is_permissive_counterexample:
  "snd (handleGitHubRequest (upstream_status 200) ''/gh/o/r@t@u/f''
         (request_for ''/3lwqk/gh/o/r@t@u/f'') [])
     = [GET ''https://github.com/o/r@t/raw/refs/tags/u/f'']
   \<and> snd (fetchWithCors (upstream_status 200) (versionUrl ''o'' ''r'' ''t@u'' ''f'')
         (request_for ''/3lwqk/gh/o/r@t@u/f'') [])
     = [GET ''https://github.com/o/r/raw/refs/tags/t@u/f'']
   \<and> GET ''https://github.com/o/r@t/raw/refs/tags/u/f'' \<noteq> GET ''https://github.com/o/r/raw/refs/tags/t@u/f''"
  by code_simp

section \<open>Faults of the network\<close>

lemma releaseDownload_catches: "\<exists>r. fst (releaseDownload net u request log) = Inr r"
  by (simp add: releaseDownload_eq split: sum.splits)

text \<open>
  C1.  A fault of the network is to become a 500 \<^verbatim>\<open>Internal Server Error\<close> on every
  shape.  The release-download branch does that (\<open>releaseDownload_catches\<close>), but the
  other three branches call \<^verbatim>\<open>fetchWithCors\<close> outside the \<^verbatim>\<open>try\<close> block: on a
  short-version path the fault comes back to the caller as a thrown error.
\<close>

theorem fault_outside_release_propagates:
  "handleRequest upstream_down (request_for ''/3lwqk/gh/jquery/jquery@3.6.4/dist/jquery.min.js'') []
     = (Inl (NetworkError ''connection refused''),
        [GET ''https://github.com/jquery/jquery/raw/refs/tags/3.6.4/dist/jquery.min.js''])"
  by code_simp


end
